theory Spec2Isabelle
  imports Complex_Main "HOL-Library.Log_Nat"
begin

section \<open>The event table\<close>

text \<open>
  One row of the table that \<open>load_data\<close> returns: the nine CSV columns plus the
  derived \<open>event_date\<close>. A missing value (NaN, \<open><NA>\<close>, NaT) is \<open>None\<close>.
  Timestamps and dates are numbers (seconds and days). A \<open>float32\<close> price, when
  it is a number, is a dyadic rational, so it is kept as the rational it denotes;
  infinite prices are not in the type. A dataframe is the list of its rows, in row order.
\<close>

record event =
  event_time :: "int option"
  event_type :: "string option"
  product_id :: "int option"
  category_id :: "int option"
  category_code :: "string option"
  brand :: "string option"
  price :: "rat option"
  user_id :: "string option"
  user_session :: "string option"
  event_date :: "int option"

subsection \<open>The pandas operations the funnel uses\<close>

text \<open>\<open>Series.dropna\<close>: the values that are present, in order.\<close>

fun dropna :: "'a option list \<Rightarrow> 'a list" where
  "dropna [] = []"
| "dropna (None # xs) = dropna xs"
| "dropna (Some x # xs) = x # dropna xs"

text \<open>\<open>Series.nunique()\<close>: the number of distinct values, missing ones left out
  (\<open>dropna=True\<close> is the default).\<close>

definition nunique :: "'a option list \<Rightarrow> nat" where
  "nunique xs = length (remdups (dropna xs))"

text \<open>\<open>DataFrame.drop_duplicates()\<close>: every row equal to an earlier one is dropped
  (\<open>keep='first'\<close>); two missing values count as equal.\<close>

fun drop_seen :: "'a list \<Rightarrow> 'a list \<Rightarrow> 'a list" where
  "drop_seen seen [] = []"
| "drop_seen seen (x # xs) =
     (if x \<in> set seen then drop_seen seen xs else x # drop_seen (x # seen) xs)"

definition drop_duplicates :: "'a list \<Rightarrow> 'a list" where
  "drop_duplicates xs = drop_seen [] xs"

section \<open>The session funnel\<close>

record funnel_row =
  sessions_with_view :: nat
  sessions_with_cart :: nat
  sessions_with_purchase :: nat
  view_to_cart_rate :: real
  cart_to_purchase_rate :: real

text \<open>\<open>df[["user_session", "event_type"]]\<close>\<close>

definition session_type_cols :: "event list \<Rightarrow> (string option \<times> string option) list" where
  "session_type_cols df = map (\<lambda>e. (user_session e, event_type e)) df"

text \<open>\<open>tmp.loc[tmp["event_type"] == t, "user_session"]\<close>: a missing event type
  compares unequal to every string.\<close>

definition sessions_where :: "string \<Rightarrow> (string option \<times> string option) list \<Rightarrow> string option list" where
  "sessions_where t tmp = map fst (filter (\<lambda>r. snd r = Some t) tmp)"

text \<open>
  \<open>funnel_by_session\<close> (analytics.py, lines 138 to 172). The result is a dataframe,
  here the list of its rows. Python's \<open>a / b\<close> on two integers is the correctly
  rounded quotient; the model keeps the exact quotient.
\<close>

definition funnel_by_session :: "event list \<Rightarrow> funnel_row list" where
  "funnel_by_session df =
     (if df = [] then
        [\<lparr> sessions_with_view = 0, sessions_with_cart = 0, sessions_with_purchase = 0,
           view_to_cart_rate = 0, cart_to_purchase_rate = 0 \<rparr>]
      else
        let tmp = drop_duplicates (session_type_cols df);
            n_view = nunique (sessions_where ''view'' tmp);
            n_cart = nunique (sessions_where ''cart'' tmp);
            n_purchase = nunique (sessions_where ''purchase'' tmp);
            v2c = (if n_view \<noteq> 0 then real n_cart / real n_view else 0);
            c2p = (if n_cart \<noteq> 0 then real n_purchase / real n_cart else 0)
        in [\<lparr> sessions_with_view = n_view, sessions_with_cart = n_cart,
               sessions_with_purchase = n_purchase,
               view_to_cart_rate = v2c, cart_to_purchase_rate = c2p \<rparr>])"

text \<open>An event that carries only a type and a session.\<close>

definition ev :: "string \<Rightarrow> string \<Rightarrow> event" where
  "ev t s = \<lparr> event_time = None, event_type = Some t, product_id = None,
              category_id = None, category_code = None, brand = None, price = None,
              user_id = None, user_session = Some s, event_date = None \<rparr>"

text \<open>
  The funnel tab of \<open>main\<close> (app.py, lines 275 to 280): the info message when the
  funnel frame is empty, the metrics of its first row otherwise.
\<close>

datatype funnel_view = Not_enough_session_data | Metrics funnel_row

definition funnel_tab :: "event list \<Rightarrow> funnel_view" where
  "funnel_tab filtered_heavy =
     (let funnel_df = funnel_by_session filtered_heavy
      in case funnel_df of [] \<Rightarrow> Not_enough_session_data | row # _ \<Rightarrow> Metrics row)"

text \<open>
  The funnel counts in the words of the specification: the session identifiers that
  have at least one event of type \<open>t\<close>. A missing session identifier is not a value.
\<close>

definition sessions_having :: "string \<Rightarrow> event list \<Rightarrow> string set" where
  "sessions_having t df = {s. \<exists>e \<in> set df. user_session e = Some s \<and> event_type e = Some t}"

text \<open>The step rate in the words of the specification: the quotient when the
  denominator is positive, 0 otherwise.\<close>

definition step_rate :: "nat \<Rightarrow> nat \<Rightarrow> real" where
  "step_rate num den = (if den > 0 then real num / real den else 0)"

section \<open>Sums of \<open>float32\<close> columns\<close>

text \<open>
  The price column is read as \<open>float32\<close>, and \<open>Series.sum()\<close> adds it in
  \<open>float32\<close>: every addition is rounded to the nearest value with a 24-bit
  significand, ties to the even one, with gradual underflow below \<open>2^-126\<close> and
  overflow to infinity from \<open>2^128\<close> on.
\<close>

definition round_half_even :: "rat \<Rightarrow> int" where
  "round_half_even y =
     (let f = \<lfloor>y\<rfloor>; r = y - of_int f
      in if r < 1 / 2 then f else if 1 / 2 < r then f + 1 else if even f then f else f + 1)"

text \<open>The binary exponent of a nonzero number: \<open>2^e \<le> |x| < 2^(e + 1)\<close>.\<close>

definition exponent :: "rat \<Rightarrow> int" where
  "exponent x =
     (let (a, b) = quotient_of \<bar>x\<bar>; c = bitlen a - bitlen b
      in if 2 powi c \<le> \<bar>x\<bar> then c else c - 1)"

text \<open>A \<open>float32\<close> value: a number, an infinity or NaN.\<close>

datatype float32 = Finite rat | Plus_inf | Minus_inf | NaN

definition f32_round :: "rat \<Rightarrow> float32" where
  "f32_round x =
     (if x = 0 then Finite 0
      else let q = 2 powi (max (exponent x) (- 126) - 23);
               y = q * of_int (round_half_even (x / q))
           in if 2 powi 128 \<le> \<bar>y\<bar> then (if 0 < x then Plus_inf else Minus_inf)
              else Finite y)"

text \<open>Addition of two \<open>float32\<close> values.\<close>

fun f32_plus :: "float32 \<Rightarrow> float32 \<Rightarrow> float32" where
  "f32_plus (Finite a) (Finite b) = f32_round (a + b)"
| "f32_plus NaN _ = NaN"
| "f32_plus _ NaN = NaN"
| "f32_plus Plus_inf Minus_inf = NaN"
| "f32_plus Minus_inf Plus_inf = NaN"
| "f32_plus Plus_inf _ = Plus_inf"
| "f32_plus _ Plus_inf = Plus_inf"
| "f32_plus Minus_inf _ = Minus_inf"
| "f32_plus _ Minus_inf = Minus_inf"

text \<open>
  numpy's sum of a contiguous \<open>float32\<close> array (\<open>pairwise_sum\<close> in its
  \<open>loops_utils\<close>), which pandas calls: fewer than 8 values are added in order,
  starting from 0; up to 128 values are added into 8 accumulators, element \<open>i\<close>
  into accumulator \<open>i mod 8\<close>, the accumulators are added as a balanced tree and
  the values after the last full group of 8 are added to that in order; a longer array
  is cut at half its length, rounded down to a multiple of 8, and the sums of the two
  parts are added.
\<close>

fun unrolled :: "float32 list \<Rightarrow> float32 list \<Rightarrow> float32 list" where
  "unrolled r a =
     (if length a < 8 then r
      else unrolled (map2 f32_plus r (take 8 a)) (drop 8 a))"

declare unrolled.simps [simp del]

definition combine :: "float32 list \<Rightarrow> float32" where
  "combine r =
     f32_plus (f32_plus (f32_plus (r ! 0) (r ! 1)) (f32_plus (r ! 2) (r ! 3)))
              (f32_plus (f32_plus (r ! 4) (r ! 5)) (f32_plus (r ! 6) (r ! 7)))"

function pairwise_sum :: "float32 list \<Rightarrow> float32" where
  "pairwise_sum a =
     (if length a < 8 then foldl f32_plus (Finite 0) a
      else if length a \<le> 128 then
        foldl f32_plus
          (combine (unrolled (take 8 a) (drop 8 (take (length a - length a mod 8) a))))
          (drop (length a - length a mod 8) a)
      else
        f32_plus (pairwise_sum (take (length a div 2 - length a div 2 mod 8) a))
                 (pairwise_sum (drop (length a div 2 - length a div 2 mod 8) a)))"
  by pat_completeness auto
termination
  by (relation "measure length") auto

declare pairwise_sum.simps [simp del]

text \<open>\<open>Series.sum()\<close> with \<open>skipna=True\<close>: a missing value counts as 0.\<close>

definition nansum :: "rat option list \<Rightarrow> float32" where
  "nansum xs = pairwise_sum (map (\<lambda>v. case v of None \<Rightarrow> Finite 0 | Some p \<Rightarrow> Finite p) xs)"

text \<open>
  The purchase prices in the words of the specification: the price values of the rows
  whose event type is \<open>purchase\<close>. A missing price is not a value.
\<close>

definition purchase_prices :: "event list \<Rightarrow> rat list" where
  "purchase_prices df = dropna (map price (filter (\<lambda>e. event_type e = Some ''purchase'') df))"

text \<open>\<open>multiple_of q p\<close>: \<open>p\<close> is an integer multiple of \<open>q\<close>.\<close>

definition multiple_of :: "rat \<Rightarrow> rat \<Rightarrow> bool" where
  "multiple_of q p = (of_int \<lfloor>p / q\<rfloor> * q = p)"

text \<open>An event with a price.\<close>

definition priced :: "string \<Rightarrow> rat \<Rightarrow> event" where
  "priced t p = (ev t ''s1'') \<lparr> price := Some p \<rparr>"

section \<open>The KPI cards\<close>

text \<open>
  \<open>compute_kpis\<close> (analytics.py, lines 10 to 34): the two distinct counts, the
  revenue and the conversion rate. \<open>float(total_revenue)\<close> converts the
  \<open>float32\<close> sum to a Python float without changing its value. The last entry of
  the returned dictionary, \<open>avg_order_value\<close>, is a mean of grouped
  floating-point sums and is not embedded.
\<close>

record kpis =
  total_users :: nat
  total_sessions :: nat
  total_revenue :: float32
  conversion_rate :: real

definition compute_kpis :: "event list \<Rightarrow> kpis" where
  "compute_kpis df =
     (let n_users = nunique (map user_id df);
          n_sessions = nunique (map user_session df);
          purchases = filter (\<lambda>e. event_type e = Some ''purchase'') df;
          revenue = nansum (map price purchases);
          rate = (if n_sessions > 0
                  then real (nunique (map user_session purchases)) / real n_sessions
                  else 0)
      in \<lparr> total_users = n_users, total_sessions = n_sessions, total_revenue = revenue,
           conversion_rate = rate \<rparr>)"

section \<open>The sidebar filters\<close>

text \<open>
  The three multiselect steps of \<open>apply_filters\<close> (app.py, lines 59 to 77). Each
  takes the list that its multiselect returned and the frame \<open>filtered\<close> that
  reaches it, and returns the frame that leaves it.
\<close>

text \<open>\<open>Series.isin(values)\<close> for a list of strings: a missing value is in no such list.\<close>

definition isin :: "string option \<Rightarrow> string list \<Rightarrow> bool" where
  "isin v values = (case v of None \<Rightarrow> False | Some x \<Rightarrow> x \<in> set values)"

text \<open>Lines 59 to 63: a Python list is true when it is not empty.\<close>

definition event_type_step :: "string list \<Rightarrow> event list \<Rightarrow> event list" where
  "event_type_step sel filtered =
     (if sel \<noteq> [] then filter (\<lambda>e. isin (event_type e) sel) filtered else filtered)"

text \<open>Lines 65 to 70. The column \<open>category_code\<close> is always there in a table of
  events, so the outer test is true.\<close>

definition category_step :: "string list \<Rightarrow> event list \<Rightarrow> event list" where
  "category_step cats filtered =
     (if cats \<noteq> [] then filter (\<lambda>e. isin (category_code e) cats) filtered else filtered)"

text \<open>Lines 72 to 77, the same with \<open>brand\<close>.\<close>

definition brand_step :: "string list \<Rightarrow> event list \<Rightarrow> event list" where
  "brand_step brands filtered =
     (if brands \<noteq> [] then filter (\<lambda>e. isin (brand e) brands) filtered else filtered)"

section \<open>Loading the table\<close>

text \<open>
  \<open>load_data\<close> (data_loader.py, lines 27 to 63). \<open>pd.read_csv\<close> is pandas', not
  the repository's, so a file is given by what
  \<open>pd.read_csv(DATA_PATH, dtype=dtypes, parse_dates=["event_time"])\<close> does on it: it
  raises an exception of some class, or it returns a frame. The frame has the columns
  of the file's header (a \<open>dtype\<close> entry for a column that the header lacks is
  ignored); a column named in \<open>dtypes\<close> has that dtype, and \<open>event_time\<close> is
  \<open>datetime64\<close> when its values parsed as dates and \<open>object\<close> otherwise. A row
  holds the cells of the nine known columns; the cells of a column that is not in
  \<open>csv_columns\<close> are not there and are written \<open>None\<close>.
\<close>

text \<open>The Python exceptions that \<open>load_data\<close> and the pandas calls it makes can
  raise. \<open>Read_error c\<close> is an exception of class \<open>c\<close> raised inside
  \<open>pd.read_csv\<close>.\<close>

datatype py_error =
    FileNotFoundError
  | Read_error string
  | KeyError string
  | AttributeError
  | ValueError

definition TARGET_ROWS :: nat where
  "TARGET_ROWS = 50000"

record csv_row =
  c_event_time :: "int option"
  c_event_type :: "string option"
  c_product_id :: "int option"
  c_category_id :: "int option"
  c_category_code :: "string option"
  c_brand :: "string option"
  c_price :: "rat option"
  c_user_id :: "int option"
  c_user_session :: "string option"

datatype time_dtype = Datetime64 | Object

record csv_frame =
  csv_columns :: "string list"
  event_time_dtype :: time_dtype
  csv_rows :: "csv_row list"

datatype csv_file = Unparsable string | Parsed csv_frame

text \<open>The frame that \<open>load_data\<close> returns: its column labels and its rows.\<close>

record frame =
  columns :: "string list"
  rows :: "event list"

text \<open>
  \<open>DataFrame.sample(n, random_state=42)\<close> draws \<open>n\<close> rows without replacement and
  raises when \<open>n\<close> exceeds the number of rows. The seed fixes one stream of random
  numbers; the model takes the stream \<open>rng\<close> as a parameter and draws one remaining
  row per step.
\<close>

fun draw :: "nat \<Rightarrow> (nat \<Rightarrow> nat) \<Rightarrow> 'a list \<Rightarrow> 'a list" where
  "draw 0 rng xs = []"
| "draw (Suc n) rng xs =
     (if xs = [] then []
      else let i = rng n mod length xs
           in xs ! i # draw n rng (take i xs @ drop (Suc i) xs))"

definition sample :: "nat \<Rightarrow> (nat \<Rightarrow> nat) \<Rightarrow> 'a list \<Rightarrow> py_error + 'a list" where
  "sample n rng xs = (if n > length xs then Inl ValueError else Inr (draw n rng xs))"

text \<open>
  \<open>sort_values("event_time")\<close>: ascending, missing timestamps last. pandas' default
  sort is not stable; the model inserts stably, and nothing below depends on the order
  among equal timestamps.
\<close>

definition time_le :: "int option \<Rightarrow> int option \<Rightarrow> bool" where
  "time_le a b = (case b of None \<Rightarrow> True
                  | Some y \<Rightarrow> (case a of None \<Rightarrow> False | Some x \<Rightarrow> x \<le> y))"

fun insert_by_time :: "csv_row \<Rightarrow> csv_row list \<Rightarrow> csv_row list" where
  "insert_by_time r [] = [r]"
| "insert_by_time r (x # xs) =
     (if time_le (c_event_time r) (c_event_time x) then r # x # xs
      else x # insert_by_time r xs)"

definition sort_values_event_time :: "csv_row list \<Rightarrow> csv_row list" where
  "sort_values_event_time xs = foldr insert_by_time xs []"

text \<open>\<open>astype("Int64").astype("string")\<close> writes an integer in decimal.\<close>

fun digits :: "nat \<Rightarrow> string" where
  "digits n = (if n < 10 then [char_of (48 + n)] else digits (n div 10) @ [char_of (48 + n mod 10)])"

definition str_of_int :: "int \<Rightarrow> string" where
  "str_of_int i = (if i < 0 then CHR ''-'' # digits (nat (- i)) else digits (nat i))"

text \<open>\<open>df[c] = ...\<close> replaces the column \<open>c\<close> or appends it.\<close>

definition add_column :: "string \<Rightarrow> string list \<Rightarrow> string list" where
  "add_column c cols = (if c \<in> set cols then cols else cols @ [c])"

text \<open>Lines 52 to 54. \<open>sort_values\<close> raises \<open>KeyError\<close> on a label that is no column.\<close>

definition downsample :: "(nat \<Rightarrow> nat) \<Rightarrow> csv_frame \<Rightarrow> py_error + csv_frame" where
  "downsample rng df =
     (if length (csv_rows df) > TARGET_ROWS then
        (case sample TARGET_ROWS rng (csv_rows df) of
           Inl err \<Rightarrow> Inl err
         | Inr picked \<Rightarrow>
             if ''event_time'' \<in> set (csv_columns df)
             then Inr (df \<lparr> csv_rows := sort_values_event_time picked \<rparr>)
             else Inl (KeyError ''event_time''))
      else Inr df)"

text \<open>The cells of one row after lines 56 to 61; the date is the day of the timestamp
  (seconds since the epoch).\<close>

definition to_event :: "csv_row \<Rightarrow> event" where
  "to_event r =
     \<lparr> event_time = c_event_time r, event_type = c_event_type r,
       product_id = c_product_id r, category_id = c_category_id r,
       category_code = c_category_code r, brand = c_brand r, price = c_price r,
       user_id = map_option str_of_int (c_user_id r),
       user_session = c_user_session r,
       event_date = map_option (\<lambda>t. t div 86400) (c_event_time r) \<rparr>"

text \<open>
  Lines 56 to 61, in the order of the source. \<open>df[c]\<close> raises \<open>KeyError\<close> when
  \<open>c\<close> is no column, and \<open>.dt\<close> raises \<open>AttributeError\<close> on a column that is
  not datetime-like. The casts to \<open>string\<close> and, on a column read as \<open>Int64\<close>, to
  \<open>Int64\<close> do not raise.
\<close>

definition convert_columns :: "csv_frame \<Rightarrow> py_error + frame" where
  "convert_columns df =
     (if ''user_id'' \<notin> set (csv_columns df) then Inl (KeyError ''user_id'')
      else if ''user_session'' \<notin> set (csv_columns df) then Inl (KeyError ''user_session'')
      else if ''event_time'' \<notin> set (csv_columns df) then Inl (KeyError ''event_time'')
      else if event_time_dtype df \<noteq> Datetime64 then Inl AttributeError
      else if ''category_code'' \<notin> set (csv_columns df) then Inl (KeyError ''category_code'')
      else if ''brand'' \<notin> set (csv_columns df) then Inl (KeyError ''brand'')
      else Inr \<lparr> columns = add_column ''event_date'' (csv_columns df),
                 rows = map to_event (csv_rows df) \<rparr>)"

text \<open>\<open>None\<close> is the state in which no file is at \<open>DATA_PATH\<close>.\<close>

definition load_data :: "(nat \<Rightarrow> nat) \<Rightarrow> csv_file option \<Rightarrow> py_error + frame" where
  "load_data rng csv =
     (case csv of
        None \<Rightarrow> Inl FileNotFoundError
      | Some (Unparsable c) \<Rightarrow> Inl (Read_error c)
      | Some (Parsed df0) \<Rightarrow>
          (case downsample rng df0 of
             Inl err \<Rightarrow> Inl err
           | Inr df \<Rightarrow> convert_columns df))"

text \<open>The columns that lines 56 to 61 read.\<close>

definition has_expected_columns :: "csv_frame \<Rightarrow> bool" where
  "has_expected_columns df =
     (''user_id'' \<in> set (csv_columns df) \<and> ''user_session'' \<in> set (csv_columns df)
      \<and> ''event_time'' \<in> set (csv_columns df) \<and> event_time_dtype df = Datetime64
      \<and> ''category_code'' \<in> set (csv_columns df) \<and> ''brand'' \<in> set (csv_columns df))"

text \<open>A header and a row as the sampling script writes them.\<close>

definition csv_header :: "string list" where
  "csv_header = [''event_time'', ''event_type'', ''product_id'', ''category_code'', ''brand'',
                 ''price'', ''user_id'', ''user_session'']"

definition csv_row0 :: csv_row where
  "csv_row0 = \<lparr> c_event_time = Some 1572566400, c_event_type = Some ''view'',
                 c_product_id = Some 1003461, c_category_id = None,
                 c_category_code = Some ''electronics.smartphone'', c_brand = Some ''xiaomi'',
                 c_price = Some 489, c_user_id = Some 520088904,
                 c_user_session = Some ''4d3b30da'' \<rparr>"

section \<open>The analytics functions as programs on Python objects\<close>

text \<open>
  Whether a function changes the frame it is given depends on which object each
  statement writes, so here the functions of analytics.py are programs on a heap of
  Python objects: a list, whose indices are the references. pandas is not part of the
  repository; what its operations compute is a parameter \<open>P\<close>:
  \<^item> \<open>expr P e args\<close> is the value of the expression \<open>e\<close> (named by its source
    text, quotes left out) on the objects \<open>args\<close>, or the exception it raises. Every
    expression used here (\<open>df[mask]\<close>, \<open>df[[...]]\<close>, \<open>.copy()\<close>, \<open>.dropna()\<close>,
    \<open>.drop_duplicates()\<close>, \<open>groupby\<close>, \<open>crosstab\<close>, \<open>merge\<close>, \<open>concat\<close>,
    \<open>fillna\<close>, \<open>to_datetime\<close>, \<open>cut\<close>, ...) returns a new object and leaves its
    operands as they are; none is called with \<open>inplace=True\<close>.
  \<^item> \<open>test P e args\<close> is the truth value of a condition.
  \<^item> \<open>setitem P obj key v\<close> is the content of \<open>obj\<close> after \<open>obj[key] = v\<close>.
  The theorems hold for every \<open>P\<close>.
\<close>

record 'o pandas =
  expr :: "string \<Rightarrow> 'o list \<Rightarrow> py_error + 'o"
  test :: "string \<Rightarrow> 'o list \<Rightarrow> py_error + bool"
  setitem :: "'o \<Rightarrow> string \<Rightarrow> 'o \<Rightarrow> py_error + 'o"

text \<open>A program takes the heap and returns a value or an exception, and the heap.\<close>

type_synonym ('o, 'a) prog = "'o list \<Rightarrow> (py_error + 'a) \<times> 'o list"

definition ret :: "'a \<Rightarrow> ('o, 'a) prog" where
  "ret x h = (Inr x, h)"

definition bind :: "('o, 'a) prog \<Rightarrow> ('a \<Rightarrow> ('o, 'b) prog) \<Rightarrow> ('o, 'b) prog" where
  "bind m k h = (case m h of (Inl err, h') \<Rightarrow> (Inl err, h') | (Inr x, h') \<Rightarrow> k x h')"

text \<open>\<open>name = e\<close>: the value of \<open>e\<close> is a new object, at the next free reference.\<close>

definition new :: "'o pandas \<Rightarrow> string \<Rightarrow> nat list \<Rightarrow> ('o, nat) prog" where
  "new P e args h =
     (case expr P e (map (nth h) args) of
        Inl err \<Rightarrow> (Inl err, h)
      | Inr v \<Rightarrow> (Inr (length h), h @ [v]))"

text \<open>A condition reads the heap and leaves it.\<close>

definition cond :: "'o pandas \<Rightarrow> string \<Rightarrow> nat list \<Rightarrow> ('o, bool) prog" where
  "cond P e args h =
     (case test P e (map (nth h) args) of
        Inl err \<Rightarrow> (Inl err, h)
      | Inr b \<Rightarrow> (Inr b, h))"

text \<open>\<open>x[key] = e\<close>: the object at reference \<open>x\<close> is written in place.\<close>

definition assign :: "'o pandas \<Rightarrow> nat \<Rightarrow> string \<Rightarrow> string \<Rightarrow> nat list \<Rightarrow> ('o, unit) prog" where
  "assign P x key e args h =
     (case expr P e (map (nth h) args) of
        Inl err \<Rightarrow> (Inl err, h)
      | Inr v \<Rightarrow>
          (case setitem P (h ! x) key v of
             Inl err \<Rightarrow> (Inl err, h)
           | Inr obj \<Rightarrow> (Inr (), h[x := obj])))"

text \<open>\<open>for x in xs: body\<close>\<close>

fun for_each :: "'a list \<Rightarrow> ('a \<Rightarrow> ('o, unit) prog) \<Rightarrow> ('o, unit) prog" where
  "for_each [] body = ret ()"
| "for_each (x # xs) body = bind (body x) (\<lambda>_. for_each xs body)"

text \<open>\<open>keeps n m\<close>: run on a heap of at least \<open>n\<close> objects, \<open>m\<close> leaves the first
  \<open>n\<close> as they are, whether it returns or raises.\<close>

definition keeps :: "nat \<Rightarrow> ('o, 'a) prog \<Rightarrow> bool" where
  "keeps n m = (\<forall>h. n \<le> length h \<longrightarrow> n \<le> length (snd (m h)) \<and> take n (snd (m h)) = take n h)"

text \<open>\<open>return pd.DataFrame()\<close>\<close>

definition empty_frame :: "'o pandas \<Rightarrow> ('o, nat) prog" where
  "empty_frame P = new P ''pd.DataFrame()'' []"

text \<open>
  The loop \<open>for col in ["view", "cart", "purchase"]: if col not in ct.columns: ct[col] = 0\<close>
  of the three grouped funnels (lines 209 to 211, 255 to 257, 295 to 297).
\<close>

definition ensure_event_columns :: "'o pandas \<Rightarrow> nat \<Rightarrow> ('o, unit) prog" where
  "ensure_event_columns P ct =
     for_each [''view'', ''cart'', ''purchase'']
       (\<lambda>col. bind (cond P (col @ '' not in ct.columns'') [ct])
          (\<lambda>missing. if missing then assign P ct col ''0'' [] else ret ()))"

text \<open>
  The two rate columns and the loop over \<open>num_cols\<close> of the three grouped funnels
  (lines 220 to 228, 266 to 274, 307 to 315).
\<close>

definition fill_rates :: "'o pandas \<Rightarrow> nat \<Rightarrow> ('o, unit) prog" where
  "fill_rates P agg =
     bind (assign P agg ''view_to_cart_rate''
             ''agg[has_cart] / agg[has_view].replace(0, pd.NA)'' [agg]) (\<lambda>_.
     bind (assign P agg ''cart_to_purchase_rate''
             ''agg[has_purchase] / agg[has_cart].replace(0, pd.NA)'' [agg]) (\<lambda>_.
     for_each [''has_view'', ''has_cart'', ''has_purchase'',
               ''view_to_cart_rate'', ''cart_to_purchase_rate'']
       (\<lambda>col. bind (cond P (col @ '' in agg.columns'') [agg])
          (\<lambda>present. if present
             then assign P agg col (''agg['' @ col @ ''].fillna(0.0)'') [agg]
             else ret ()))))"

text \<open>The nine functions, statement by statement. A name that is bound twice in the
  source (\<open>tmp\<close>, \<open>merged\<close>) gets an index at its second binding.\<close>

definition compute_kpis_effects :: "'o pandas \<Rightarrow> nat \<Rightarrow> ('o, nat) prog" where
  "compute_kpis_effects P df =
     bind (new P ''df[user_id].nunique()'' [df]) (\<lambda>total_users'.
     bind (new P ''df[user_session].nunique()'' [df]) (\<lambda>total_sessions'.
     bind (new P ''df[df[event_type] == purchase]'' [df]) (\<lambda>purchases.
     bind (new P ''purchases[price].sum()'' [purchases]) (\<lambda>total_revenue.
     bind (cond P ''total_sessions > 0'' [total_sessions']) (\<lambda>positive.
     bind (if positive
           then bind (new P ''purchases[user_session].nunique()'' [purchases])
                  (\<lambda>sessions_with_purchase'.
                new P ''sessions_with_purchase / total_sessions''
                  [sessions_with_purchase', total_sessions'])
           else new P ''0.0'' []) (\<lambda>conversion_rate'.
     bind (cond P ''not purchases.empty'' [purchases]) (\<lambda>some.
     bind (if some
           then new P ''purchases.groupby(user_session)[price].sum().mean()'' [purchases]
           else new P ''0.0'' []) (\<lambda>avg_order_value.
     new P ''dict(total_users, total_sessions, float(total_revenue), float(conversion_rate), float(avg_order_value))''
       [total_users', total_sessions', total_revenue, conversion_rate', avg_order_value]))))))))"

definition funnel_by_session_effects :: "'o pandas \<Rightarrow> nat \<Rightarrow> ('o, nat) prog" where
  "funnel_by_session_effects P df =
     bind (cond P ''df.empty'' [df]) (\<lambda>is_empty.
     if is_empty then new P ''pd.DataFrame([zero row])'' []
     else
     bind (new P ''df[[user_session, event_type]].drop_duplicates()'' [df]) (\<lambda>tmp.
     bind (new P ''tmp.loc[tmp[event_type] == view, user_session].nunique()'' [tmp]) (\<lambda>n_view.
     bind (new P ''tmp.loc[tmp[event_type] == cart, user_session].nunique()'' [tmp]) (\<lambda>n_cart.
     bind (new P ''tmp.loc[tmp[event_type] == purchase, user_session].nunique()'' [tmp])
       (\<lambda>n_purchase.
     bind (cond P ''sessions_with_view'' [n_view]) (\<lambda>some_view.
     bind (if some_view then new P ''sessions_with_cart / sessions_with_view'' [n_cart, n_view]
           else new P ''0.0'' []) (\<lambda>v2c.
     bind (cond P ''sessions_with_cart'' [n_cart]) (\<lambda>some_cart.
     bind (if some_cart
           then new P ''sessions_with_purchase / sessions_with_cart'' [n_purchase, n_cart]
           else new P ''0.0'' []) (\<lambda>c2p.
     new P ''pd.DataFrame([row])'' [n_view, n_cart, n_purchase, v2c, c2p])))))))))"

definition funnel_by_category_effects :: "'o pandas \<Rightarrow> nat \<Rightarrow> nat \<Rightarrow> ('o, nat) prog" where
  "funnel_by_category_effects P df top_n =
     bind (cond P ''category_code not in df.columns or df.empty'' [df]) (\<lambda>nothing.
     if nothing then empty_frame P
     else
     bind (new P ''df.dropna(subset=[category_code])'' [df]) (\<lambda>tmp.
     bind (new P ''tmp[tmp[event_type] == purchase]'' [tmp]) (\<lambda>purchases.
     bind (cond P ''purchases.empty'' [purchases]) (\<lambda>no_purchases.
     if no_purchases then empty_frame P
     else
     bind (new P ''purchases.groupby(category_code)[user_session].nunique().sort_values(ascending=False).head(top_n).index.tolist()''
             [purchases, top_n]) (\<lambda>top_cats.
     bind (cond P ''not top_cats'' [top_cats]) (\<lambda>no_cats.
     if no_cats then empty_frame P
     else
     bind (new P ''tmp[tmp[category_code].isin(top_cats)]'' [tmp, top_cats]) (\<lambda>tmp1.
     bind (new P ''tmp[[category_code, user_session, event_type]].drop_duplicates()'' [tmp1])
       (\<lambda>tmp2.
     bind (new P ''pd.crosstab([tmp[category_code], tmp[user_session]], tmp[event_type]).reset_index()''
             [tmp2]) (\<lambda>ct.
     bind (ensure_event_columns P ct) (\<lambda>_.
     bind (new P ''ct.groupby(category_code)[[view, cart, purchase]].sum().reset_index().rename(...)''
             [ct]) (\<lambda>agg.
     bind (fill_rates P agg) (\<lambda>_.
     ret agg))))))))))))"

definition funnel_by_price_bucket_effects :: "'o pandas \<Rightarrow> nat \<Rightarrow> ('o, nat) prog" where
  "funnel_by_price_bucket_effects P df =
     bind (cond P ''price not in df.columns or df.empty'' [df]) (\<lambda>nothing.
     if nothing then empty_frame P
     else
     bind (new P ''df.copy()'' [df]) (\<lambda>tmp.
     bind (assign P tmp ''price'' ''tmp[price].fillna(0)'' [tmp]) (\<lambda>_.
     bind (assign P tmp ''price_bucket'' ''pd.cut(tmp[price], bins, labels)'' [tmp]) (\<lambda>_.
     bind (new P ''tmp[[price_bucket, user_session, event_type]].drop_duplicates()'' [tmp])
       (\<lambda>tmp1.
     bind (new P ''pd.crosstab([tmp[price_bucket], tmp[user_session]], tmp[event_type]).reset_index()''
             [tmp1]) (\<lambda>ct.
     bind (ensure_event_columns P ct) (\<lambda>_.
     bind (new P ''ct.groupby(price_bucket)[[view, cart, purchase]].sum().reset_index().rename(...)''
             [ct]) (\<lambda>agg.
     bind (fill_rates P agg) (\<lambda>_.
     ret agg)))))))))"

definition funnel_by_hour_effects :: "'o pandas \<Rightarrow> nat \<Rightarrow> ('o, nat) prog" where
  "funnel_by_hour_effects P df =
     bind (cond P ''event_time not in df.columns or df.empty'' [df]) (\<lambda>nothing.
     if nothing then empty_frame P
     else
     bind (new P ''df[df[event_type].isin([view, cart, purchase])].copy()'' [df]) (\<lambda>tmp.
     bind (assign P tmp ''event_time'' ''pd.to_datetime(tmp[event_time])'' [tmp]) (\<lambda>_.
     bind (assign P tmp ''hour'' ''tmp[event_time].dt.hour'' [tmp]) (\<lambda>_.
     bind (new P ''tmp[[hour, user_session, event_type]].drop_duplicates()'' [tmp]) (\<lambda>tmp1.
     bind (new P ''pd.crosstab([tmp[hour], tmp[user_session]], tmp[event_type]).reset_index()''
             [tmp1]) (\<lambda>ct.
     bind (ensure_event_columns P ct) (\<lambda>_.
     bind (new P ''ct.groupby(hour)[[view, cart, purchase]].sum().reset_index().rename(...).sort_values(hour)''
             [ct]) (\<lambda>agg.
     bind (fill_rates P agg) (\<lambda>_.
     ret agg)))))))))"

definition category_revenue_effects :: "'o pandas \<Rightarrow> nat \<Rightarrow> nat \<Rightarrow> ('o, nat) prog" where
  "category_revenue_effects P df top_n =
     bind (new P ''df[df[event_type] == purchase]'' [df]) (\<lambda>purchases.
     bind (cond P ''purchases.empty'' [purchases]) (\<lambda>no_purchases.
     if no_purchases then empty_frame P
     else new P ''purchases.groupby(category_code)[price].sum().reset_index(name=revenue).sort_values(revenue, ascending=False).head(top_n)''
            [purchases, top_n]))"

definition repeat_purchase_stats_effects :: "'o pandas \<Rightarrow> nat \<Rightarrow> ('o, nat) prog" where
  "repeat_purchase_stats_effects P df =
     bind (new P ''df[df[event_type] == purchase]'' [df]) (\<lambda>purchases.
     bind (cond P ''purchases.empty'' [purchases]) (\<lambda>no_purchases.
     if no_purchases then empty_frame P
     else
     bind (new P ''purchases.groupby(user_id)[user_session].nunique().reset_index(name=purchase_sessions)''
             [purchases]) (\<lambda>counts.
     bind (assign P counts ''purchase_sessions_bucket''
             ''pd.cut(counts[purchase_sessions], bins, labels)'' [counts]) (\<lambda>_.
     new P ''counts[purchase_sessions_bucket].value_counts().sort_index().reset_index(name=users).rename(...)''
       [counts]))))"

definition time_to_purchase_distribution_effects :: "'o pandas \<Rightarrow> nat \<Rightarrow> ('o, nat) prog" where
  "time_to_purchase_distribution_effects P df =
     bind (new P ''df.copy()'' [df]) (\<lambda>tmp.
     bind (assign P tmp ''event_time'' ''pd.to_datetime(tmp[event_time])'' [tmp]) (\<lambda>_.
     bind (new P ''tmp[tmp[event_type] == view].groupby(user_session)[event_time].min().rename(first_view_time)''
             [tmp]) (\<lambda>views.
     bind (new P ''tmp[tmp[event_type] == purchase].groupby(user_session)[event_time].min().rename(first_purchase_time)''
             [tmp]) (\<lambda>purchases.
     bind (new P ''pd.concat([views, purchases], axis=1).dropna()'' [views, purchases])
       (\<lambda>merged.
     bind (assign P merged ''minutes_to_purchase''
             ''(merged[first_purchase_time] - merged[first_view_time]).dt.total_seconds() / 60''
             [merged]) (\<lambda>_.
     new P ''merged[merged[minutes_to_purchase] >= 0].reset_index()[[minutes_to_purchase]]''
       [merged]))))))"

definition high_view_low_buy_categories_effects ::
    "'o pandas \<Rightarrow> nat \<Rightarrow> nat \<Rightarrow> ('o, nat) prog" where
  "high_view_low_buy_categories_effects P df min_views =
     bind (new P ''df[df[event_type] == view]'' [df]) (\<lambda>views.
     bind (new P ''df[df[event_type] == purchase]'' [df]) (\<lambda>purchases.
     bind (new P ''views.groupby(category_code)[user_session].nunique().reset_index(name=view_sessions)''
             [views]) (\<lambda>views_cnt.
     bind (cond P ''not purchases.empty'' [purchases]) (\<lambda>some.
     bind (if some
           then new P ''purchases.groupby(category_code)[user_session].nunique().reset_index(name=purchase_sessions)''
                  [purchases]
           else new P ''pd.DataFrame(columns=[category_code, purchase_sessions])'' [])
       (\<lambda>buys_cnt.
     bind (new P ''views_cnt.merge(buys_cnt, on=category_code, how=left).fillna(0)''
             [views_cnt, buys_cnt]) (\<lambda>merged.
     bind (new P ''merged[merged[view_sessions] >= min_views]'' [merged, min_views])
       (\<lambda>merged1.
     bind (cond P ''merged.empty'' [merged1]) (\<lambda>none_left.
     if none_left then ret merged1
     else
     bind (assign P merged1 ''conversion_rate''
             ''(merged[purchase_sessions] / merged[view_sessions]).fillna(0.0)'' [merged1]) (\<lambda>_.
     new P ''merged.sort_values(conversion_rate).head(10)'' [merged1])))))))))"

text \<open>An instance of the parameters for running the programs: an object is the list of
  its column labels, \<open>df.copy()\<close> copies them, every other expression has none, every
  condition is false.\<close>

definition columns_only :: "string list pandas" where
  "columns_only =
     \<lparr> expr = (\<lambda>e args. Inr (if e = ''df.copy()'' then concat args else [])),
       test = (\<lambda>e args. Inr False),
       setitem = (\<lambda>obj key v. Inr (add_column key obj)) \<rparr>"

section \<open>Facts about the pandas operations\<close>

lemma set_dropna: "set (dropna xs) = {x. Some x \<in> set xs}"
  by (induction xs rule: dropna.induct) auto

lemma nunique_card: "nunique xs = card {x. Some x \<in> set xs}"
  by (simp add: nunique_def length_remdups_card_conv set_dropna)

lemma set_drop_seen: "set (drop_seen seen xs) = set xs - set seen"
  by (induction xs arbitrary: seen) auto

lemma set_drop_duplicates: "set (drop_duplicates xs) = set xs"
  by (simp add: drop_duplicates_def set_drop_seen)

lemma distinct_drop_seen: "distinct (drop_seen seen xs)"
  by (induction xs arbitrary: seen) (auto simp: set_drop_seen)

lemma distinct_drop_duplicates: "distinct (drop_duplicates xs)"
  by (simp add: drop_duplicates_def distinct_drop_seen)

lemma sessions_where_card:
  "nunique (sessions_where t (drop_duplicates (session_type_cols df))) = card (sessions_having t df)"
proof -
  have "{x. Some x \<in> set (sessions_where t (drop_duplicates (session_type_cols df)))}
      = sessions_having t df"
    by (force simp: sessions_where_def set_drop_duplicates session_type_cols_def
        sessions_having_def image_iff)
  then show ?thesis by (simp add: nunique_card)
qed

lemma funnel_by_session_cards:
  "funnel_by_session df =
     (if df = [] then
        [\<lparr> sessions_with_view = 0, sessions_with_cart = 0, sessions_with_purchase = 0,
           view_to_cart_rate = 0, cart_to_purchase_rate = 0 \<rparr>]
      else
        [\<lparr> sessions_with_view = card (sessions_having ''view'' df),
           sessions_with_cart = card (sessions_having ''cart'' df),
           sessions_with_purchase = card (sessions_having ''purchase'' df),
           view_to_cart_rate =
             step_rate (card (sessions_having ''cart'' df)) (card (sessions_having ''view'' df)),
           cart_to_purchase_rate =
             step_rate (card (sessions_having ''purchase'' df)) (card (sessions_having ''cart'' df)) \<rparr>])"
  by (simp add: funnel_by_session_def Let_def sessions_where_card step_rate_def)

lemma sessions_having_cong:
  assumes "set (session_type_cols df) = set (session_type_cols df')"
  shows "sessions_having t df = sessions_having t df'"
proof -
  have "sessions_having t d = {s. (Some s, Some t) \<in> set (session_type_cols d)}" for d
    by (force simp: sessions_having_def session_type_cols_def image_iff)
  with assms show ?thesis by simp
qed

lemma nunique_filter_le:
  "nunique (map f (filter P xs)) \<le> nunique (map f xs)"
proof -
  have "{x. Some x \<in> set (map f (filter P xs))} \<subseteq> {x. Some x \<in> set (map f xs)}"
    by auto
  moreover have "finite {x. Some x \<in> set (map f xs)}"
    by (metis List.finite_set set_dropna)
  ultimately show ?thesis
    unfolding nunique_card by (rule card_mono [rotated])
qed

lemma ratio_le_one: "a \<le> b \<Longrightarrow> real a / real b \<le> 1"
  by (cases "b = 0") (simp_all add: divide_le_eq_1)

section \<open>Facts about \<open>float32\<close> sums\<close>

lemma round_half_even_of_int: "round_half_even (of_int m) = m"
  by (simp add: round_half_even_def)

lemma exponent_le:
  assumes "x \<noteq> 0"
  shows "2 powi (exponent x) \<le> \<bar>x\<bar>"
proof -
  obtain a b where ab: "quotient_of \<bar>x\<bar> = (a, b)" by (cases "quotient_of \<bar>x\<bar>")
  then have b: "0 < b" by (rule quotient_of_denom_pos)
  from ab have x: "\<bar>x\<bar> = of_int a / of_int b" by (rule quotient_of_div)
  from assms have "0 < \<bar>x\<bar>" by simp
  with x b have a: "0 < a" by (simp add: zero_less_divide_iff)
  let ?c = "bitlen a - bitlen b"
  have "(2::rat) powi (?c - 1) \<le> \<bar>x\<bar>"
  proof -
    from bitlen_bounds [OF a] have "(2::int) ^ nat (bitlen a - 1) \<le> a" by simp
    then have "(of_int ((2::int) ^ nat (bitlen a - 1)) :: rat) \<le> of_int a"
      by (simp only: of_int_le_iff)
    then have 1: "(2::rat) ^ nat (bitlen a - 1) \<le> of_int a" by simp
    from bitlen_bounds [OF b] have "b \<le> (2::int) ^ nat (bitlen b)" by simp
    then have "(of_int b :: rat) \<le> of_int ((2::int) ^ nat (bitlen b))"
      by (simp only: of_int_le_iff)
    then have 2: "(of_int b :: rat) \<le> 2 ^ nat (bitlen b)" by simp
    have la: "1 \<le> bitlen a" using a by (simp add: bitlen_alt_def)
    have lb: "0 \<le> bitlen b" by (rule bitlen_nonneg)
    have "(2::rat) powi (?c - 1) = 2 powi (bitlen a - 1) / 2 powi (bitlen b)"
      by (simp add: power_int_diff)
    also have "\<dots> = 2 ^ nat (bitlen a - 1) / 2 ^ nat (bitlen b)"
      using la lb by (simp add: power_int_def)
    also have "\<dots> \<le> of_int a / of_int b"
      using 1 2 a b by (intro frac_le) auto
    finally show ?thesis using x by simp
  qed
  then show ?thesis using ab by (auto simp: exponent_def Let_def)
qed

lemma f32_round_exact:
  assumes m: "multiple_of (2 powi e) y" and lt: "\<bar>y\<bar> < 2 powi (e + 24)"
    and lo: "- 149 \<le> e" and hi: "e \<le> 104"
  shows "f32_round y = Finite y"
proof (cases "y = 0")
  case True
  then show ?thesis by (simp add: f32_round_def)
next
  case False
  define j where "j = max (exponent y) (- 126) - 23"
  define k where "k = \<lfloor>y / 2 powi e\<rfloor>"
  from m have y: "y = of_int k * 2 powi e" by (simp add: multiple_of_def k_def)
  from exponent_le [OF False] lt have "(2::rat) powi (exponent y) < 2 powi (e + 24)" by simp
  then have "exponent y < e + 24"
    using power_int_increasing [of "e + 24" "exponent y" "2::rat"] by (cases "exponent y < e + 24") auto
  with lo have je: "j \<le> e" by (simp add: j_def)
  have "y / 2 powi j = of_int k * (2 powi e / 2 powi j)" by (simp add: y)
  also have "2 powi e / 2 powi j = (2::rat) powi (e - j)" by (simp add: power_int_diff)
  also have "\<dots> = 2 ^ nat (e - j)" using je by (simp add: power_int_def)
  finally have "y / 2 powi j = of_int (k * 2 ^ nat (e - j))" by simp
  then have r: "round_half_even (y / 2 powi j) = k * 2 ^ nat (e - j)"
    by (simp only: round_half_even_of_int)
  have "(2::rat) powi j * of_int (k * 2 ^ nat (e - j)) = of_int k * (2 powi j * 2 ^ nat (e - j))"
    by simp
  also have "(2::rat) powi j * 2 ^ nat (e - j) = 2 powi j * 2 powi (e - j)"
    using je by (simp add: power_int_def)
  also have "\<dots> = (2::rat) powi e" by (simp flip: power_int_add)
  finally have "(2::rat) powi j * of_int (k * 2 ^ nat (e - j)) = of_int k * 2 powi e" .
  with y have "(2::rat) powi j * of_int (k * 2 ^ nat (e - j)) = y" by simp
  then have same: "2 powi j * of_int (round_half_even (y / 2 powi j)) = y"
    by (simp only: r)
  have "(2::rat) powi (e + 24) \<le> 2 powi 128" using hi by (intro power_int_increasing) auto
  with lt have "\<not> 2 powi 128 \<le> \<bar>y\<bar>" by simp
  with False same show ?thesis
    unfolding f32_round_def Let_def j_def [symmetric] by simp
qed



lemma multiple_ofI: "q \<noteq> 0 \<Longrightarrow> a = of_int k * q \<Longrightarrow> multiple_of q a"
  by (simp add: multiple_of_def)

lemma multiple_of_add:
  assumes "q \<noteq> 0" and "multiple_of q a" and "multiple_of q b"
  shows "multiple_of q (a + b)"
proof -
  from assms(2,3) have "a + b = of_int (\<lfloor>a / q\<rfloor> + \<lfloor>b / q\<rfloor>) * q"
    by (simp add: multiple_of_def algebra_simps)
  with assms(1) show ?thesis by (rule multiple_ofI)
qed

lemma multiple_of_sum_list:
  "q \<noteq> 0 \<Longrightarrow> list_all (multiple_of q) xs \<Longrightarrow> multiple_of q (sum_list xs)"
proof (induction xs)
  case Nil
  show ?case by (simp add: multiple_of_def)
next
  case (Cons x xs)
  then show ?case by (simp add: multiple_of_add)
qed

lemma abs_total_nonneg: "0 \<le> sum_list (map abs xs)" for xs :: "rat list"
  by (rule sum_list_nonneg) auto

lemma abs_sum_list_le: "\<bar>sum_list xs\<bar> \<le> sum_list (map abs xs)" for xs :: "rat list"
  by (induction xs) auto

lemma f32_plus_exact:
  assumes "- 149 \<le> e" and "e \<le> 104"
    and "multiple_of (2 powi e) a" and "multiple_of (2 powi e) b"
    and "\<bar>a\<bar> \<le> m" and "\<bar>b\<bar> \<le> n" and "m + n < 2 powi (e + 24)"
  shows "f32_plus (Finite a) (Finite b) = Finite (a + b)"
proof -
  have "multiple_of (2 powi e) (a + b)"
    using assms(3,4) by (intro multiple_of_add) auto
  moreover have "\<bar>a + b\<bar> < 2 powi (e + 24)"
    using assms(5-7) by linarith
  ultimately show ?thesis using assms(1,2) by (simp add: f32_round_exact)
qed

lemma foldl_f32_plus_exact:
  assumes "- 149 \<le> e" and "e \<le> 104"
  shows "multiple_of (2 powi e) a \<Longrightarrow> list_all (multiple_of (2 powi e)) xs \<Longrightarrow>
         \<bar>a\<bar> + sum_list (map abs xs) < 2 powi (e + 24) \<Longrightarrow>
         foldl f32_plus (Finite a) (map Finite xs) = Finite (a + sum_list xs)"
proof (induction xs arbitrary: a)
  case Nil
  then show ?case by simp
next
  case (Cons x xs)
  have nn: "0 \<le> sum_list (map abs xs)" by (rule abs_total_nonneg)
  from Cons.prems have step: "f32_plus (Finite a) (Finite x) = Finite (a + x)"
    using nn by (intro f32_plus_exact [OF assms, where m = "\<bar>a\<bar>" and n = "\<bar>x\<bar>"]) auto
  have "multiple_of (2 powi e) (a + x)"
    using Cons.prems by (intro multiple_of_add) auto
  moreover have "\<bar>a + x\<bar> + sum_list (map abs xs) < 2 powi (e + 24)"
    using Cons.prems(3) by simp
  ultimately have "foldl f32_plus (Finite (a + x)) (map Finite xs) = Finite (a + x + sum_list xs)"
    using Cons.prems(2) by (intro Cons.IH) auto
  with step show ?case by (simp add: add.assoc)
qed

lemma map2_f32_plus_exact:
  assumes "- 149 \<le> e" and "e \<le> 104"
  shows "list_all (multiple_of (2 powi e)) rs \<Longrightarrow> list_all (multiple_of (2 powi e)) xs \<Longrightarrow>
         sum_list (map abs rs) + sum_list (map abs xs) < 2 powi (e + 24) \<Longrightarrow>
         map2 f32_plus (map Finite rs) (map Finite xs) = map Finite (map2 (+) rs xs)"
proof (induction rs arbitrary: xs)
  case Nil
  then show ?case by simp
next
  case (Cons r rs)
  show ?case
  proof (cases xs)
    case Nil
    then show ?thesis by simp
  next
    case (Cons x xs')
    have nn: "0 \<le> sum_list (map abs rs)" "0 \<le> sum_list (map abs xs')"
      by (rule abs_total_nonneg)+
    from Cons.prems Cons have "f32_plus (Finite r) (Finite x) = Finite (r + x)"
      using nn by (intro f32_plus_exact [OF assms, where m = "\<bar>r\<bar>" and n = "\<bar>x\<bar>"]) auto
    moreover have "map2 f32_plus (map Finite rs) (map Finite xs') = map Finite (map2 (+) rs xs')"
      using Cons.prems Cons by (intro Cons.IH) auto
    ultimately show ?thesis using Cons by simp
  qed
qed

lemma map2_add_facts:
  fixes rs xs :: "rat list"
  assumes "length rs = length xs"
  shows "sum_list (map2 (+) rs xs) = sum_list rs + sum_list xs"
    and "sum_list (map abs (map2 (+) rs xs)) \<le> sum_list (map abs rs) + sum_list (map abs xs)"
    and "q \<noteq> 0 \<Longrightarrow> list_all (multiple_of q) rs \<Longrightarrow> list_all (multiple_of q) xs \<Longrightarrow>
         list_all (multiple_of q) (map2 (+) rs xs)"
  using assms
  by (induction rs xs rule: list_induct2) (auto simp: multiple_of_add)


lemma unrolled_exact:
  assumes "- 149 \<le> e" and "e \<le> 104"
  shows "length rs = 8 \<Longrightarrow> 8 dvd length xs \<Longrightarrow>
         list_all (multiple_of (2 powi e)) rs \<Longrightarrow> list_all (multiple_of (2 powi e)) xs \<Longrightarrow>
         sum_list (map abs rs) + sum_list (map abs xs) < 2 powi (e + 24) \<Longrightarrow>
         \<exists>rs'. unrolled (map Finite rs) (map Finite xs) = map Finite rs' \<and> length rs' = 8
            \<and> list_all (multiple_of (2 powi e)) rs'
            \<and> sum_list rs' = sum_list rs + sum_list xs
            \<and> sum_list (map abs rs') \<le> sum_list (map abs rs) + sum_list (map abs xs)"
proof (induction "length xs" arbitrary: rs xs rule: less_induct)
  case less
  show ?case
  proof (cases "length xs < 8")
    case True
    with less.prems(2) have "xs = []" by (auto elim: dvdE)
    with less.prems show ?thesis by (subst unrolled.simps) auto
  next
    case False
    let ?h = "take 8 xs" and ?t = "drop 8 xs"
    let ?r = "map2 (+) rs ?h"
    have xs: "xs = ?h @ ?t" by simp
    have lh: "length ?h = 8" using False by simp
    have mh: "list_all (multiple_of (2 powi e)) ?h" and mt: "list_all (multiple_of (2 powi e)) ?t"
      using less.prems(4) by (auto simp: list_all_iff dest: in_set_takeD in_set_dropD)
    have split_abs: "sum_list (map abs xs) = sum_list (map abs ?h) + sum_list (map abs ?t)"
      by (metis append_take_drop_id map_append sum_list_append)
    have split_sum: "sum_list xs = sum_list ?h + sum_list ?t"
      by (metis append_take_drop_id sum_list_append)
    have nt: "0 \<le> sum_list (map abs ?t)" by (rule abs_total_nonneg)
    have step: "map2 f32_plus (map Finite rs) (map Finite ?h) = map Finite ?r"
      using less.prems(3,5) mh split_abs nt
      by (intro map2_f32_plus_exact [OF assms]) auto
    have len: "length rs = length ?h" using less.prems(1) lh by simp
    have r_sum: "sum_list ?r = sum_list rs + sum_list ?h"
      and r_abs: "sum_list (map abs ?r) \<le> sum_list (map abs rs) + sum_list (map abs ?h)"
      using map2_add_facts(1,2) [OF len] by auto
    have r_mult: "list_all (multiple_of (2 powi e)) ?r"
      using map2_add_facts(3) [OF len, of "2 powi e"] less.prems(3) mh by simp
    have "\<exists>rs'. unrolled (map Finite ?r) (map Finite ?t) = map Finite rs' \<and> length rs' = 8
            \<and> list_all (multiple_of (2 powi e)) rs'
            \<and> sum_list rs' = sum_list ?r + sum_list ?t
            \<and> sum_list (map abs rs') \<le> sum_list (map abs ?r) + sum_list (map abs ?t)"
    proof (rule less.hyps)
      show "length ?t < length xs" using False by simp
      show "length ?r = 8" using less.prems(1) lh by simp
      show "8 dvd length ?t" using less.prems(2) False by (simp add: dvd_diff_nat)
      show "list_all (multiple_of (2 powi e)) ?r" by (rule r_mult)
      show "list_all (multiple_of (2 powi e)) ?t" by (rule mt)
      show "sum_list (map abs ?r) + sum_list (map abs ?t) < 2 powi (e + 24)"
        using r_abs less.prems(5) split_abs by linarith
    qed
    then obtain rs' where rs': "unrolled (map Finite ?r) (map Finite ?t) = map Finite rs'"
      "length rs' = 8" "list_all (multiple_of (2 powi e)) rs'"
      "sum_list rs' = sum_list ?r + sum_list ?t"
      "sum_list (map abs rs') \<le> sum_list (map abs ?r) + sum_list (map abs ?t)"
      by blast
    have "unrolled (map Finite rs) (map Finite xs)
        = unrolled (map2 f32_plus (map Finite rs) (map Finite ?h)) (map Finite ?t)"
      using False by (subst unrolled.simps) (simp add: take_map drop_map)
    with step rs'(1) have "unrolled (map Finite rs) (map Finite xs) = map Finite rs'" by simp
    moreover have "sum_list rs' = sum_list rs + sum_list xs"
      using rs'(4) r_sum split_sum by simp
    moreover have "sum_list (map abs rs') \<le> sum_list (map abs rs) + sum_list (map abs xs)"
      using rs'(5) r_abs split_abs by linarith
    ultimately show ?thesis using rs'(2,3) by blast
  qed
qed

lemma abs_add_le: "\<bar>a\<bar> \<le> m \<Longrightarrow> \<bar>b\<bar> \<le> n \<Longrightarrow> \<bar>a + b\<bar> \<le> m + n" for a b m n :: rat
  by linarith

lemma combine_exact:
  assumes "- 149 \<le> e" and "e \<le> 104"
    and "length rs = 8" and "list_all (multiple_of (2 powi e)) rs"
    and "sum_list (map abs rs) < 2 powi (e + 24)"
  shows "combine (map Finite rs) = Finite (sum_list rs)"
proof -
  from assms(3) obtain r0 r1 r2 r3 r4 r5 r6 r7 where rs: "rs = [r0, r1, r2, r3, r4, r5, r6, r7]"
    by (auto simp: length_Suc_conv eval_nat_numeral)
  let ?q = "(2::rat) powi e"
  have q: "?q \<noteq> 0" by simp
  from assms(4) rs have m: "multiple_of ?q r0" "multiple_of ?q r1" "multiple_of ?q r2"
    "multiple_of ?q r3" "multiple_of ?q r4" "multiple_of ?q r5" "multiple_of ?q r6"
    "multiple_of ?q r7"
    by simp_all
  define m0 m1 m2 m3 m4 m5 m6 m7 where ms: "m0 = \<bar>r0\<bar>" "m1 = \<bar>r1\<bar>" "m2 = \<bar>r2\<bar>" "m3 = \<bar>r3\<bar>"
    "m4 = \<bar>r4\<bar>" "m5 = \<bar>r5\<bar>" "m6 = \<bar>r6\<bar>" "m7 = \<bar>r7\<bar>"
  have nn: "0 \<le> m0" "0 \<le> m1" "0 \<le> m2" "0 \<le> m3" "0 \<le> m4" "0 \<le> m5" "0 \<le> m6" "0 \<le> m7"
    by (simp_all add: ms)
  have b: "\<bar>r0\<bar> \<le> m0" "\<bar>r1\<bar> \<le> m1" "\<bar>r2\<bar> \<le> m2" "\<bar>r3\<bar> \<le> m3"
    "\<bar>r4\<bar> \<le> m4" "\<bar>r5\<bar> \<le> m5" "\<bar>r6\<bar> \<le> m6" "\<bar>r7\<bar> \<le> m7"
    by (simp_all add: ms)
  from assms(5) have tot: "m0 + m1 + m2 + m3 + m4 + m5 + m6 + m7 < 2 powi (e + 24)"
    unfolding rs ms by (simp add: add.assoc)
  have t01: "m0 + m1 < 2 powi (e + 24)" and t23: "m2 + m3 < 2 powi (e + 24)"
    and t45: "m4 + m5 < 2 powi (e + 24)" and t67: "m6 + m7 < 2 powi (e + 24)"
    and t03: "m0 + m1 + (m2 + m3) < 2 powi (e + 24)"
    and t47: "m4 + m5 + (m6 + m7) < 2 powi (e + 24)"
    and t07: "m0 + m1 + (m2 + m3) + (m4 + m5 + (m6 + m7)) < 2 powi (e + 24)"
    using nn tot by linarith+
  note plus = f32_plus_exact [OF assms(1,2)]
  note madd = multiple_of_add [OF q]
  have p01: "f32_plus (Finite r0) (Finite r1) = Finite (r0 + r1)"
    by (rule plus [OF m(1) m(2) b(1) b(2) t01])
  have p23: "f32_plus (Finite r2) (Finite r3) = Finite (r2 + r3)"
    by (rule plus [OF m(3) m(4) b(3) b(4) t23])
  have p45: "f32_plus (Finite r4) (Finite r5) = Finite (r4 + r5)"
    by (rule plus [OF m(5) m(6) b(5) b(6) t45])
  have p67: "f32_plus (Finite r6) (Finite r7) = Finite (r6 + r7)"
    by (rule plus [OF m(7) m(8) b(7) b(8) t67])
  note m01 = madd [OF m(1) m(2)] and m23 = madd [OF m(3) m(4)]
    and m45 = madd [OF m(5) m(6)] and m67 = madd [OF m(7) m(8)]
  note b01 = abs_add_le [OF b(1) b(2)] and b23 = abs_add_le [OF b(3) b(4)]
    and b45 = abs_add_le [OF b(5) b(6)] and b67 = abs_add_le [OF b(7) b(8)]
  have p03: "f32_plus (Finite (r0 + r1)) (Finite (r2 + r3)) = Finite (r0 + r1 + (r2 + r3))"
    by (rule plus [OF m01 m23 b01 b23 t03])
  have p47: "f32_plus (Finite (r4 + r5)) (Finite (r6 + r7)) = Finite (r4 + r5 + (r6 + r7))"
    by (rule plus [OF m45 m67 b45 b67 t47])
  have p07: "f32_plus (Finite (r0 + r1 + (r2 + r3))) (Finite (r4 + r5 + (r6 + r7)))
      = Finite (r0 + r1 + (r2 + r3) + (r4 + r5 + (r6 + r7)))"
    by (rule plus [OF madd [OF m01 m23] madd [OF m45 m67]
          abs_add_le [OF b01 b23] abs_add_le [OF b45 b67] t07])
  have "combine (map Finite rs)
      = f32_plus (f32_plus (f32_plus (Finite r0) (Finite r1)) (f32_plus (Finite r2) (Finite r3)))
                 (f32_plus (f32_plus (Finite r4) (Finite r5)) (f32_plus (Finite r6) (Finite r7)))"
    by (simp add: combine_def rs del: f32_plus.simps)
  also have "\<dots> = Finite (r0 + r1 + (r2 + r3) + (r4 + r5 + (r6 + r7)))"
    by (simp only: p01 p23 p45 p67 p03 p47 p07)
  also have "\<dots> = Finite (sum_list rs)"
    by (simp add: rs)
  finally show ?thesis .
qed

lemma pairwise_sum_exact:
  assumes "- 149 \<le> e" and "e \<le> 104"
  shows "list_all (multiple_of (2 powi e)) xs \<Longrightarrow>
         sum_list (map abs xs) < 2 powi (e + 24) \<Longrightarrow>
         pairwise_sum (map Finite xs) = Finite (sum_list xs)"
proof (induction "length xs" arbitrary: xs rule: less_induct)
  case less
  let ?q = "(2::rat) powi e"
  have q: "?q \<noteq> 0" by simp
  have zero: "multiple_of ?q 0" by (simp add: multiple_of_def)
  have parts: "list_all (multiple_of ?q) (take k xs)" "list_all (multiple_of ?q) (drop k xs)" for k
    using less.prems(1) by (auto simp: list_all_iff dest: in_set_takeD in_set_dropD)
  have split_abs: "sum_list (map abs xs) = sum_list (map abs (take k xs)) + sum_list (map abs (drop k xs))"
    for k by (metis append_take_drop_id map_append sum_list_append)
  have split_sum: "sum_list xs = sum_list (take k xs) + sum_list (drop k xs)" for k
    by (metis append_take_drop_id sum_list_append)
  consider (short) "length xs < 8" | (block) "8 \<le> length xs" "length xs \<le> 128"
    | (long) "128 < length xs"
    by linarith
  then show ?case
  proof cases
    case short
    have "foldl f32_plus (Finite 0) (map Finite xs) = Finite (0 + sum_list xs)"
      using less.prems by (intro foldl_f32_plus_exact [OF assms] zero) auto
    with short show ?thesis by (subst pairwise_sum.simps) simp
  next
    case block
    define n where "n = length xs - length xs mod 8"
    let ?head = "take 8 xs" and ?mid = "drop 8 (take n xs)" and ?rest = "drop n xs"
    have nle: "n \<le> length xs" by (simp add: n_def)
    have ndvd: "8 dvd n" unfolding n_def by (rule dvd_minus_mod)
    have "length xs mod 8 < 8" by simp
    with block(1) have "0 < n" unfolding n_def by linarith
    with ndvd have n8: "8 \<le> n" by (rule dvd_imp_le)
    have "take 8 (take n xs) = ?head" using n8 by (simp add: min.absorb1)
    with append_take_drop_id [of 8 "take n xs"] have tn: "take n xs = ?head @ ?mid" by simp
    have sum_n: "sum_list (take n xs) = sum_list ?head + sum_list ?mid"
      by (subst tn) simp
    have abs_n: "sum_list (map abs (take n xs)) = sum_list (map abs ?head) + sum_list (map abs ?mid)"
      by (subst tn) simp
    have mh: "list_all (multiple_of ?q) ?head" by (rule parts)
    have mm: "list_all (multiple_of ?q) ?mid"
      using parts(1) [of n] by (auto simp: list_all_iff dest: in_set_dropD)
    have nr: "0 \<le> sum_list (map abs ?rest)" by (rule abs_total_nonneg)
    have "\<exists>rs'. unrolled (map Finite ?head) (map Finite ?mid) = map Finite rs' \<and> length rs' = 8
            \<and> list_all (multiple_of ?q) rs'
            \<and> sum_list rs' = sum_list ?head + sum_list ?mid
            \<and> sum_list (map abs rs') \<le> sum_list (map abs ?head) + sum_list (map abs ?mid)"
    proof (rule unrolled_exact [OF assms])
      show "length ?head = 8" using block(1) by simp
      show "8 dvd length ?mid" using ndvd n8 nle by (simp add: min.absorb2 dvd_diff_nat)
      show "list_all (multiple_of ?q) ?head" by (rule mh)
      show "list_all (multiple_of ?q) ?mid" by (rule mm)
      show "sum_list (map abs ?head) + sum_list (map abs ?mid) < 2 powi (e + 24)"
        using less.prems(2) split_abs [of n] abs_n nr by linarith
    qed
    then obtain rs' where rs': "unrolled (map Finite ?head) (map Finite ?mid) = map Finite rs'"
      "length rs' = 8" "list_all (multiple_of ?q) rs'"
      "sum_list rs' = sum_list ?head + sum_list ?mid"
      "sum_list (map abs rs') \<le> sum_list (map abs ?head) + sum_list (map abs ?mid)"
      by blast
    have le_all: "sum_list (map abs rs') + sum_list (map abs ?rest) < 2 powi (e + 24)"
      using rs'(5) less.prems(2) split_abs [of n] abs_n by linarith
    have "sum_list (map abs rs') < 2 powi (e + 24)" using le_all nr by linarith
    then have c: "combine (map Finite rs') = Finite (sum_list rs')"
      by (rule combine_exact [OF assms rs'(2,3)])
    have "foldl f32_plus (Finite (sum_list rs')) (map Finite ?rest)
        = Finite (sum_list rs' + sum_list ?rest)"
    proof (rule foldl_f32_plus_exact [OF assms])
      show "multiple_of ?q (sum_list rs')" using q rs'(3) by (rule multiple_of_sum_list)
      show "list_all (multiple_of ?q) ?rest" by (rule parts)
      show "\<bar>sum_list rs'\<bar> + sum_list (map abs ?rest) < 2 powi (e + 24)"
        using le_all abs_sum_list_le [of rs'] by linarith
    qed
    moreover have "sum_list rs' + sum_list ?rest = sum_list xs"
      using rs'(4) sum_n split_sum [of n] by simp
    moreover have "pairwise_sum (map Finite xs)
        = foldl f32_plus (combine (unrolled (map Finite ?head) (map Finite ?mid)))
            (map Finite ?rest)"
      using block by (subst pairwise_sum.simps) (simp add: take_map drop_map n_def)
    ultimately show ?thesis by (simp add: rs'(1) c)
  next
    case long
    define k where "k = length xs div 2 - length xs div 2 mod 8"
    have "length xs div 2 mod 8 < 8" by simp
    moreover have "64 \<le> length xs div 2" using long by linarith
    moreover have "length xs div 2 < length xs" using long by linarith
    ultimately have k: "0 < k" "k < length xs" unfolding k_def by linarith+
    have lt: "length (take k xs) < length xs" "length (drop k xs) < length xs"
      using k by auto
    have na: "0 \<le> sum_list (map abs (take k xs))" "0 \<le> sum_list (map abs (drop k xs))"
      by (rule abs_total_nonneg)+
    have lim: "sum_list (map abs (take k xs)) < 2 powi (e + 24)"
      "sum_list (map abs (drop k xs)) < 2 powi (e + 24)"
      using less.prems(2) split_abs [of k] na by linarith+
    have a: "pairwise_sum (map Finite (take k xs)) = Finite (sum_list (take k xs))"
      by (rule less.hyps [OF lt(1) parts(1) lim(1)])
    have b: "pairwise_sum (map Finite (drop k xs)) = Finite (sum_list (drop k xs))"
      by (rule less.hyps [OF lt(2) parts(2) lim(2)])
    have "f32_plus (Finite (sum_list (take k xs))) (Finite (sum_list (drop k xs)))
        = Finite (sum_list (take k xs) + sum_list (drop k xs))"
    proof (rule f32_plus_exact [OF assms])
      show "multiple_of ?q (sum_list (take k xs))" using q parts(1) by (rule multiple_of_sum_list)
      show "multiple_of ?q (sum_list (drop k xs))" using q parts(2) by (rule multiple_of_sum_list)
      show "\<bar>sum_list (take k xs)\<bar> \<le> sum_list (map abs (take k xs))" by (rule abs_sum_list_le)
      show "\<bar>sum_list (drop k xs)\<bar> \<le> sum_list (map abs (drop k xs))" by (rule abs_sum_list_le)
      show "sum_list (map abs (take k xs)) + sum_list (map abs (drop k xs)) < 2 powi (e + 24)"
        using less.prems(2) split_abs [of k] by simp
    qed
    moreover have "pairwise_sum (map Finite xs)
        = f32_plus (pairwise_sum (map Finite (take k xs))) (pairwise_sum (map Finite (drop k xs)))"
      using long by (subst pairwise_sum.simps) (simp add: take_map drop_map k_def)
    ultimately show ?thesis using a b split_sum [of k] by simp
  qed
qed

lemma fill_missing:
  "map (\<lambda>v. case v of None \<Rightarrow> Finite 0 | Some p \<Rightarrow> Finite p) xs
     = map Finite (map (\<lambda>v. case v of None \<Rightarrow> 0 | Some p \<Rightarrow> p) xs)"
  by (induction xs) (auto split: option.splits)

lemma fill_missing_sum:
  "sum_list (map (\<lambda>v. case v of None \<Rightarrow> 0 | Some p \<Rightarrow> p) xs) = sum_list (dropna xs)"
  for xs :: "rat option list"
  by (induction xs rule: dropna.induct) auto

lemma fill_missing_abs:
  "sum_list (map abs (map (\<lambda>v. case v of None \<Rightarrow> 0 | Some p \<Rightarrow> p) xs))
     = sum_list (map abs (dropna xs))"
  for xs :: "rat option list"
  by (induction xs rule: dropna.induct) auto

lemma fill_missing_multiple:
  "list_all (multiple_of q) (dropna xs) \<Longrightarrow>
   list_all (multiple_of q) (map (\<lambda>v. case v of None \<Rightarrow> 0 | Some p \<Rightarrow> p) xs)"
  by (induction xs rule: dropna.induct) (auto simp: multiple_of_def)

lemma nansum_exact:
  assumes "- 149 \<le> e" and "e \<le> 104"
    and "list_all (multiple_of (2 powi e)) (dropna xs)"
    and "sum_list (map abs (dropna xs)) < 2 powi (e + 24)"
  shows "nansum xs = Finite (sum_list (dropna xs))"
proof -
  let ?ys = "map (\<lambda>v. case v of None \<Rightarrow> 0 | Some p \<Rightarrow> p) xs"
  have m: "list_all (multiple_of (2 powi e)) ?ys"
    using assms(3) by (rule fill_missing_multiple)
  have a: "sum_list (map abs ?ys) < 2 powi (e + 24)"
    using assms(4) by (simp only: fill_missing_abs)
  have "pairwise_sum (map Finite ?ys) = Finite (sum_list ?ys)"
    by (rule pairwise_sum_exact [OF assms(1,2) m a])
  then show ?thesis by (simp only: nansum_def fill_missing fill_missing_sum)
qed

lemma drift_sum: "nansum [Some 16777216, Some 1, Some 1] = Finite 16777216"
  by code_simp

section \<open>Facts about loading\<close>

lemma length_draw: "length (draw n rng xs) = min n (length xs)"
proof (induction n arbitrary: xs)
  case 0
  show ?case by simp
next
  case (Suc n)
  show ?case
  proof (cases "xs = []")
    case True
    then show ?thesis by simp
  next
    case False
    then have "rng n mod length xs < length xs" by simp
    then have "length (take (rng n mod length xs) xs @ drop (Suc (rng n mod length xs)) xs)
        = length xs - 1"
      by simp
    with False Suc.IH show ?thesis
      by (simp add: Let_def) (metis Suc_pred length_greater_0_conv min_Suc_Suc)
  qed
qed

lemma length_insert_by_time: "length (insert_by_time r xs) = Suc (length xs)"
  by (induction xs) auto

lemma length_sort_values_event_time: "length (sort_values_event_time xs) = length xs"
  by (induction xs) (auto simp: sort_values_event_time_def length_insert_by_time)

lemma downsample_cases:
  "downsample rng df = Inr df' \<Longrightarrow>
     csv_columns df' = csv_columns df \<and> event_time_dtype df' = event_time_dtype df
     \<and> length (csv_rows df') = min TARGET_ROWS (length (csv_rows df))"
  by (auto simp: downsample_def sample_def length_draw length_sort_values_event_time
      split: if_splits)

lemma downsample_ok:
  "''event_time'' \<in> set (csv_columns df) \<Longrightarrow> \<exists>df'. downsample rng df = Inr df'"
  by (auto simp: downsample_def sample_def)

lemma convert_columns_ok:
  "(\<exists>t. convert_columns df = Inr t) \<longleftrightarrow> has_expected_columns df"
  by (auto simp: convert_columns_def has_expected_columns_def)

lemma convert_columns_length:
  "convert_columns df = Inr t \<Longrightarrow> length (rows t) = length (csv_rows df)"
  by (auto simp: convert_columns_def split: if_splits)

lemma load_data_ok:
  "(\<exists>t. load_data rng (Some (Parsed df)) = Inr t) \<longleftrightarrow> has_expected_columns df"
proof
  assume "\<exists>t. load_data rng (Some (Parsed df)) = Inr t"
  then obtain t df' where d: "downsample rng df = Inr df'" and c: "convert_columns df' = Inr t"
    by (auto simp: load_data_def split: sum.splits)
  from c have "has_expected_columns df'" using convert_columns_ok by blast
  with downsample_cases [OF d] show "has_expected_columns df"
    by (simp add: has_expected_columns_def)
next
  assume h: "has_expected_columns df"
  then obtain df' where d: "downsample rng df = Inr df'"
    using downsample_ok [of df rng] by (auto simp: has_expected_columns_def)
  with h downsample_cases [OF d] have "has_expected_columns df'"
    by (simp add: has_expected_columns_def)
  then obtain t where "convert_columns df' = Inr t" using convert_columns_ok by blast
  with d show "\<exists>t. load_data rng (Some (Parsed df)) = Inr t"
    by (simp add: load_data_def)
qed

lemma load_data_length:
  assumes "load_data rng (Some (Parsed df)) = Inr t"
  shows "length (rows t) = min TARGET_ROWS (length (csv_rows df))"
proof -
  from assms obtain df' where d: "downsample rng df = Inr df'" and c: "convert_columns df' = Inr t"
    by (auto simp: load_data_def split: sum.splits)
  from convert_columns_length [OF c] downsample_cases [OF d] show ?thesis by simp
qed


lemma load_data_parsed_error:
  assumes "load_data rng (Some (Parsed df)) = Inl err"
  shows "(\<exists>c. err = KeyError c) \<or> err = AttributeError"
proof (cases "downsample rng df")
  case (Inl e)
  then have "e = KeyError ''event_time''"
    by (auto simp: downsample_def sample_def split: if_splits)
  with Inl assms show ?thesis by (auto simp: load_data_def)
next
  case (Inr df')
  with assms have "convert_columns df' = Inl err" by (simp add: load_data_def)
  then show ?thesis by (auto simp: convert_columns_def split: if_splits)
qed

section \<open>Facts about programs on objects\<close>

lemma keeps_ret: "keeps n (ret x)"
  by (simp add: keeps_def ret_def)

lemma keeps_new: "keeps n (new P e args)"
  by (simp add: keeps_def new_def split: sum.splits)

lemma keeps_bind_new:
  assumes "\<And>x. n \<le> x \<Longrightarrow> keeps n (k x)"
  shows "keeps n (bind (new P e args) k)"
  unfolding keeps_def
proof (intro allI impI)
  fix h :: "'a list"
  assume n: "n \<le> length h"
  show "n \<le> length (snd (bind (new P e args) k h))
      \<and> take n (snd (bind (new P e args) k h)) = take n h"
  proof (cases "expr P e (map (nth h) args)")
    case (Inl err)
    then show ?thesis using n by (simp add: bind_def new_def)
  next
    case (Inr v)
    then have b: "bind (new P e args) k h = k (length h) (h @ [v])"
      by (simp add: bind_def new_def)
    from assms [OF n] n have "n \<le> length (snd (k (length h) (h @ [v])))
        \<and> take n (snd (k (length h) (h @ [v]))) = take n (h @ [v])"
      by (simp add: keeps_def)
    with b n show ?thesis by simp
  qed
qed

lemma keeps_bind_cond:
  assumes "\<And>b. keeps n (k b)"
  shows "keeps n (bind (cond P e args) k)"
  using assms by (auto simp: keeps_def bind_def cond_def split: sum.splits)

lemma keeps_bind_assign:
  assumes "n \<le> x" and "keeps n (k ())"
  shows "keeps n (bind (assign P x key e args) k)"
  unfolding keeps_def
proof (intro allI impI)
  fix h :: "'a list"
  assume n: "n \<le> length h"
  obtain r h' where a: "assign P x key e args h = (r, h')" by (cases "assign P x key e args h")
  then have h': "length h' = length h \<and> take n h' = take n h"
    using assms(1) by (auto simp: assign_def split: sum.splits)
  show "n \<le> length (snd (bind (assign P x key e args) k h))
      \<and> take n (snd (bind (assign P x key e args) k h)) = take n h"
  proof (cases r)
    case (Inl err)
    with a h' n show ?thesis by (simp add: bind_def)
  next
    case (Inr u)
    with a have "bind (assign P x key e args) k h = k () h'" by (simp add: bind_def)
    moreover from assms(2) h' n have "n \<le> length (snd (k () h'))
        \<and> take n (snd (k () h')) = take n h'"
      by (simp add: keeps_def)
    ultimately show ?thesis using h' by simp
  qed
qed

lemma keeps_bind:
  assumes "keeps n m" and "\<And>x. keeps n (k x)"
  shows "keeps n (bind m k)"
  unfolding keeps_def
proof (intro allI impI)
  fix h :: "'a list"
  assume n: "n \<le> length h"
  obtain r h' where a: "m h = (r, h')" by (cases "m h")
  with assms(1) n have h': "n \<le> length h' \<and> take n h' = take n h"
    by (auto simp: keeps_def)
  show "n \<le> length (snd (bind m k h)) \<and> take n (snd (bind m k h)) = take n h"
  proof (cases r)
    case (Inl err)
    with a h' show ?thesis by (simp add: bind_def)
  next
    case (Inr x)
    with a have "bind m k h = k x h'" by (simp add: bind_def)
    moreover from assms(2) h' have "n \<le> length (snd (k x h'))
        \<and> take n (snd (k x h')) = take n h'"
      by (simp add: keeps_def)
    ultimately show ?thesis using h' by simp
  qed
qed

lemma keeps_if:
  "keeps n a \<Longrightarrow> keeps n b \<Longrightarrow> keeps n (if c then a else b)"
  by simp

lemma keeps_for_each:
  assumes "\<And>x. keeps n (body x)"
  shows "keeps n (for_each xs body)"
  by (induction xs) (auto intro: keeps_ret keeps_bind assms)

lemma keeps_unchanged:
  assumes "keeps (length h) m"
  shows "take (length h) (snd (m h)) = h"
  using assms by (simp add: keeps_def)


lemma keeps_assign: "n \<le> x \<Longrightarrow> keeps n (assign P x key e args)"
  by (auto simp: keeps_def assign_def split: sum.splits)

lemma keeps_empty_frame: "keeps n (empty_frame P)"
  by (simp add: empty_frame_def keeps_new)

lemma keeps_ensure_event_columns: "n \<le> ct \<Longrightarrow> keeps n (ensure_event_columns P ct)"
  unfolding ensure_event_columns_def
  by (intro keeps_for_each keeps_bind_cond keeps_if keeps_ret keeps_assign)

lemma keeps_fill_rates: "n \<le> agg \<Longrightarrow> keeps n (fill_rates P agg)"
  unfolding fill_rates_def
  by (intro keeps_bind_assign keeps_for_each keeps_bind_cond keeps_if keeps_ret keeps_assign)

lemma keeps_compute_kpis_effects: "keeps n (compute_kpis_effects P df)"
  unfolding compute_kpis_effects_def
  by (intro keeps_bind_new keeps_bind_cond keeps_bind_assign keeps_if keeps_new keeps_ret
      keeps_bind keeps_empty_frame keeps_ensure_event_columns keeps_fill_rates)

lemma keeps_funnel_by_session_effects: "keeps n (funnel_by_session_effects P df)"
  unfolding funnel_by_session_effects_def
  by (intro keeps_bind_new keeps_bind_cond keeps_bind_assign keeps_if keeps_new keeps_ret
      keeps_bind keeps_empty_frame keeps_ensure_event_columns keeps_fill_rates)

lemma keeps_funnel_by_category_effects: "keeps n (funnel_by_category_effects P df top_n)"
  unfolding funnel_by_category_effects_def
  by (intro keeps_bind_new keeps_bind_cond keeps_bind_assign keeps_if keeps_new keeps_ret
      keeps_bind keeps_empty_frame keeps_ensure_event_columns keeps_fill_rates)

lemma keeps_funnel_by_price_bucket_effects: "keeps n (funnel_by_price_bucket_effects P df)"
  unfolding funnel_by_price_bucket_effects_def
  by (intro keeps_bind_new keeps_bind_cond keeps_bind_assign keeps_if keeps_new keeps_ret
      keeps_bind keeps_empty_frame keeps_ensure_event_columns keeps_fill_rates)

lemma keeps_funnel_by_hour_effects: "keeps n (funnel_by_hour_effects P df)"
  unfolding funnel_by_hour_effects_def
  by (intro keeps_bind_new keeps_bind_cond keeps_bind_assign keeps_if keeps_new keeps_ret
      keeps_bind keeps_empty_frame keeps_ensure_event_columns keeps_fill_rates)

lemma keeps_category_revenue_effects: "keeps n (category_revenue_effects P df top_n)"
  unfolding category_revenue_effects_def
  by (intro keeps_bind_new keeps_bind_cond keeps_bind_assign keeps_if keeps_new keeps_ret
      keeps_bind keeps_empty_frame keeps_ensure_event_columns keeps_fill_rates)

lemma keeps_repeat_purchase_stats_effects: "keeps n (repeat_purchase_stats_effects P df)"
  unfolding repeat_purchase_stats_effects_def
  by (intro keeps_bind_new keeps_bind_cond keeps_bind_assign keeps_if keeps_new keeps_ret
      keeps_bind keeps_empty_frame keeps_ensure_event_columns keeps_fill_rates)

lemma keeps_time_to_purchase_distribution_effects: "keeps n (time_to_purchase_distribution_effects P df)"
  unfolding time_to_purchase_distribution_effects_def
  by (intro keeps_bind_new keeps_bind_cond keeps_bind_assign keeps_if keeps_new keeps_ret
      keeps_bind keeps_empty_frame keeps_ensure_event_columns keeps_fill_rates)

lemma keeps_high_view_low_buy_categories_effects: "keeps n (high_view_low_buy_categories_effects P df min_views)"
  unfolding high_view_low_buy_categories_effects_def
  by (intro keeps_bind_new keeps_bind_cond keeps_bind_assign keeps_if keeps_new keeps_ret
      keeps_bind keeps_empty_frame keeps_ensure_event_columns keeps_fill_rates)

lemma keeps_nth:
  assumes "keeps (length h) m" and "df < length h"
  shows "snd (m h) ! df = h ! df"
proof -
  from assms(1) have "take (length h) (snd (m h)) = h" by (rule keeps_unchanged)
  then have "take (length h) (snd (m h)) ! df = h ! df" by simp
  with assms(2) show ?thesis by simp
qed

section \<open>Claims\<close>

text \<open>
  C1. The ordering purchase \<open>\<le>\<close> cart \<open>\<le>\<close> view of the three session counts is not
  guaranteed: there is a non-empty table (one session with a cart event and no view
  event) whose funnel row has more cart sessions than view sessions.
\<close>

theorem funnel_not_monotonic:
  "\<exists>df row. df \<noteq> [] \<and> funnel_by_session df = [row] \<and>
     sessions_with_view row < sessions_with_cart row"
proof (intro exI conjI)
  let ?row = "\<lparr> sessions_with_view = 0, sessions_with_cart = 1, sessions_with_purchase = 0,
                view_to_cart_rate = 0, cart_to_purchase_rate = 0 \<rparr>"
  show "[ev ''cart'' ''s1''] \<noteq> []" by simp
  show "funnel_by_session [ev ''cart'' ''s1''] = [?row]"
    by (simp add: funnel_by_session_def session_type_cols_def sessions_where_def
        drop_duplicates_def nunique_def ev_def Let_def)
  show "sessions_with_view ?row < sessions_with_cart ?row" by simp
qed

text \<open>
  C9. On the empty table \<open>funnel_by_session\<close> returns one row, with the three counts
  0 and the two rates 0; it never returns an empty frame, so the funnel tab never
  takes its "not enough session data" branch.
\<close>

theorem funnel_empty_table:
  "funnel_by_session [] =
     [\<lparr> sessions_with_view = 0, sessions_with_cart = 0, sessions_with_purchase = 0,
        view_to_cart_rate = 0, cart_to_purchase_rate = 0 \<rparr>]
   \<and> length (funnel_by_session df) = 1
   \<and> funnel_tab df \<noteq> Not_enough_session_data"
  by (simp add: funnel_by_session_def funnel_tab_def Let_def)

text \<open>
  C2, counterexample. Two sessions with a cart event and one with a view event: the
  denominator of \<open>view_to_cart_rate\<close> is 1 and the rate is 2.
\<close>

theorem view_to_cart_rate_above_one:
  "map sessions_with_view (funnel_by_session [ev ''cart'' ''s1'', ev ''cart'' ''s2'', ev ''view'' ''s1'']) = [1]
   \<and> map view_to_cart_rate (funnel_by_session [ev ''cart'' ''s1'', ev ''cart'' ''s2'', ev ''view'' ''s1'']) = [2]"
  by (simp add: funnel_by_session_def session_type_cols_def sessions_where_def
      drop_duplicates_def nunique_def ev_def Let_def)

text \<open>
  C2, as the code has it. The conversion rate of \<open>compute_kpis\<close> lies in \<open>[0, 1]\<close>
  and is 0 when there is no session. The two rates of \<open>funnel_by_session\<close> are not
  negative and are 0 when their denominator is 0; each is at most 1 when its numerator
  count is at most its denominator count.
\<close>

theorem rates_bounds:
  "0 \<le> conversion_rate (compute_kpis df) \<and> conversion_rate (compute_kpis df) \<le> 1
   \<and> (total_sessions (compute_kpis df) = 0 \<longrightarrow> conversion_rate (compute_kpis df) = 0)
   \<and> (funnel_by_session df = [row] \<longrightarrow>
        0 \<le> view_to_cart_rate row \<and> 0 \<le> cart_to_purchase_rate row
        \<and> (sessions_with_view row = 0 \<longrightarrow> view_to_cart_rate row = 0)
        \<and> (sessions_with_cart row = 0 \<longrightarrow> cart_to_purchase_rate row = 0)
        \<and> (sessions_with_cart row \<le> sessions_with_view row \<longrightarrow> view_to_cart_rate row \<le> 1)
        \<and> (sessions_with_purchase row \<le> sessions_with_cart row \<longrightarrow> cart_to_purchase_rate row \<le> 1))"
proof (intro conjI impI)
  show "0 \<le> conversion_rate (compute_kpis df)"
    by (simp add: compute_kpis_def Let_def)
  show "conversion_rate (compute_kpis df) \<le> 1"
    by (simp add: compute_kpis_def Let_def ratio_le_one nunique_filter_le)
  show "conversion_rate (compute_kpis df) = 0" if "total_sessions (compute_kpis df) = 0"
    using that by (simp add: compute_kpis_def Let_def)
next
  assume r: "funnel_by_session df = [row]"
  show "0 \<le> view_to_cart_rate row" "0 \<le> cart_to_purchase_rate row"
    using r by (auto simp: funnel_by_session_def Let_def split: if_splits)
  show "view_to_cart_rate row = 0" if "sessions_with_view row = 0"
    using r that by (auto simp: funnel_by_session_def Let_def split: if_splits)
  show "cart_to_purchase_rate row = 0" if "sessions_with_cart row = 0"
    using r that by (auto simp: funnel_by_session_def Let_def split: if_splits)
  show "view_to_cart_rate row \<le> 1" if "sessions_with_cart row \<le> sessions_with_view row"
    using r that by (auto simp: funnel_by_session_def Let_def ratio_le_one split: if_splits)
  show "cart_to_purchase_rate row \<le> 1" if "sessions_with_purchase row \<le> sessions_with_cart row"
    using r that by (auto simp: funnel_by_session_def Let_def ratio_le_one split: if_splits)
qed

theorem rates_bounds_witness:
  "funnel_by_session [ev ''view'' ''s1'', ev ''cart'' ''s1'', ev ''view'' ''s2'']
     = [\<lparr> sessions_with_view = 2, sessions_with_cart = 1, sessions_with_purchase = 0,
          view_to_cart_rate = 1 / 2, cart_to_purchase_rate = 0 \<rparr>]
   \<and> conversion_rate
        (compute_kpis [ev ''view'' ''s1'', ev ''cart'' ''s1'', ev ''view'' ''s2'']) \<le> 1
   \<and> total_sessions (compute_kpis []) = 0 \<and> conversion_rate (compute_kpis []) = 0"
  using rates_bounds
    [of "[ev ''view'' ''s1'', ev ''cart'' ''s1'', ev ''view'' ''s2'']"
        "\<lparr> sessions_with_view = 2, sessions_with_cart = 1, sessions_with_purchase = 0,
           view_to_cart_rate = 1 / 2, cart_to_purchase_rate = 0 \<rparr>"]
    rates_bounds [of "[]"]
  by (simp add: funnel_by_session_def session_type_cols_def sessions_where_def
      drop_duplicates_def nunique_def ev_def Let_def compute_kpis_def)

text \<open>
  C3, counterexample. Three purchases with the prices 16777216, 1 and 1: their sum is
  16777218, and \<open>total_revenue\<close> is 16777216, since 16777217 is not a
  \<open>float32\<close> value and each addition of 1 is rounded away.
\<close>

theorem total_revenue_drifts:
  "total_revenue (compute_kpis [priced ''purchase'' 16777216, priced ''purchase'' 1,
       priced ''purchase'' 1]) = Finite 16777216
   \<and> sum_list (purchase_prices [priced ''purchase'' 16777216, priced ''purchase'' 1,
       priced ''purchase'' 1]) = 16777218"
  by (simp add: compute_kpis_def Let_def purchase_prices_def priced_def ev_def drift_sum)

text \<open>
  C3, as the code has it. \<open>total_revenue\<close> is the \<open>float32\<close> sum of the
  purchase prices, every addition rounded. It is exactly their sum when all of them
  are integer multiples of one power of two \<open>2^e\<close>, with \<open>-149 \<le> e \<le> 104\<close>,
  and their absolute values add up to less than \<open>2^(e + 24)\<close>: then no addition
  rounds.
\<close>

theorem total_revenue_exact_on_grid:
  assumes "- 149 \<le> e" and "e \<le> 104"
    and "list_all (multiple_of (2 powi e)) (purchase_prices df)"
    and "sum_list (map abs (purchase_prices df)) < 2 powi (e + 24)"
  shows "total_revenue (compute_kpis df) = Finite (sum_list (purchase_prices df))"
  using nansum_exact [OF assms(1,2), of "map price (filter (\<lambda>e. event_type e = Some ''purchase'') df)"]
    assms(3,4)
  by (simp add: compute_kpis_def Let_def purchase_prices_def)

theorem total_revenue_exact_on_grid_witness:
  "(- 149 :: int) \<le> - 2 \<and> (- 2 :: int) \<le> 104
   \<and> list_all (multiple_of (2 powi (- 2)))
        (purchase_prices [priced ''purchase'' (1 / 2), priced ''view'' 5, ev ''purchase'' ''s2'',
           priced ''purchase'' (3 / 4), priced ''purchase'' 12])
   \<and> sum_list (map abs
        (purchase_prices [priced ''purchase'' (1 / 2), priced ''view'' 5, ev ''purchase'' ''s2'',
           priced ''purchase'' (3 / 4), priced ''purchase'' 12])) < 2 powi (- 2 + 24)
   \<and> total_revenue
        (compute_kpis [priced ''purchase'' (1 / 2), priced ''view'' 5, ev ''purchase'' ''s2'',
           priced ''purchase'' (3 / 4), priced ''purchase'' 12]) = Finite (53 / 4)"
proof -
  let ?df = "[priced ''purchase'' (1 / 2), priced ''view'' 5, ev ''purchase'' ''s2'',
           priced ''purchase'' (3 / 4), priced ''purchase'' 12]"
  have p: "purchase_prices ?df = [1 / 2, 3 / 4, 12]"
    by (simp add: purchase_prices_def priced_def ev_def)
  have q: "(2::rat) powi (- 2) = 1 / 4" by (simp add: power_int_minus field_simps)
  have m: "list_all (multiple_of (2 powi (- 2))) (purchase_prices ?df)"
    unfolding p q by (simp add: multiple_of_def)
  have b: "sum_list (map abs (purchase_prices ?df)) < 2 powi (- 2 + 24)"
    unfolding p by simp
  from total_revenue_exact_on_grid [OF _ _ m b]
  have "total_revenue (compute_kpis ?df) = Finite (sum_list (purchase_prices ?df))" by simp
  then have "total_revenue (compute_kpis ?df) = Finite (53 / 4)" unfolding p by simp
  with m b show ?thesis by simp
qed

text \<open>
  C4. An empty selection filters nothing: the category step, the brand step and the
  event-type step of \<open>apply_filters\<close> each return the frame they are given when
  the selected list is empty.
\<close>

theorem empty_selection_no_filter:
  "category_step [] filtered = filtered
   \<and> brand_step [] filtered = filtered
   \<and> event_type_step [] filtered = filtered"
  by (simp add: category_step_def brand_step_def event_type_step_def)

text \<open>
  C5. For a non-empty table \<open>funnel_by_session\<close> returns one row: the three counts are
  the numbers of distinct session identifiers with at least one view, cart and purchase
  event, and each rate is the quotient of the two counts when the denominator is
  positive and 0 otherwise.
\<close>

theorem funnel_by_session_counts:
  assumes "df \<noteq> []"
  shows "funnel_by_session df =
        [\<lparr> sessions_with_view = card (sessions_having ''view'' df),
           sessions_with_cart = card (sessions_having ''cart'' df),
           sessions_with_purchase = card (sessions_having ''purchase'' df),
           view_to_cart_rate =
             step_rate (card (sessions_having ''cart'' df)) (card (sessions_having ''view'' df)),
           cart_to_purchase_rate =
             step_rate (card (sessions_having ''purchase'' df)) (card (sessions_having ''cart'' df)) \<rparr>]"
  using assms by (simp add: funnel_by_session_cards)

theorem funnel_by_session_counts_witness:
  "[ev ''view'' ''s1'', ev ''cart'' ''s1'', ev ''view'' ''s2'', ev ''view'' ''s1''] \<noteq> []
   \<and> card (sessions_having ''view''
        [ev ''view'' ''s1'', ev ''cart'' ''s1'', ev ''view'' ''s2'', ev ''view'' ''s1'']) = 2
   \<and> card (sessions_having ''cart''
        [ev ''view'' ''s1'', ev ''cart'' ''s1'', ev ''view'' ''s2'', ev ''view'' ''s1'']) = 1
   \<and> step_rate
        (card (sessions_having ''cart''
          [ev ''view'' ''s1'', ev ''cart'' ''s1'', ev ''view'' ''s2'', ev ''view'' ''s1'']))
        (card (sessions_having ''view''
          [ev ''view'' ''s1'', ev ''cart'' ''s1'', ev ''view'' ''s2'', ev ''view'' ''s1''])) = 1 / 2"
  using funnel_by_session_counts
    [of "[ev ''view'' ''s1'', ev ''cart'' ''s1'', ev ''view'' ''s2'', ev ''view'' ''s1'']"]
  by (simp add: funnel_by_session_def session_type_cols_def sessions_where_def
      drop_duplicates_def nunique_def ev_def Let_def)

text \<open>
  C6. The funnel row depends only on the set of (session, event type) pairs of the
  table; appending a copy of a row that is already there does not change it.
\<close>

theorem funnel_by_session_dedup:
  "(set (session_type_cols df) = set (session_type_cols df') \<longrightarrow>
      funnel_by_session df = funnel_by_session df')
   \<and> (e \<in> set df \<longrightarrow> funnel_by_session (df @ [e]) = funnel_by_session df)"
proof (intro conjI impI)
  assume eq: "set (session_type_cols df) = set (session_type_cols df')"
  then have "df = [] \<longleftrightarrow> df' = []"
    by (metis session_type_cols_def map_is_Nil_conv set_empty)
  with eq show "funnel_by_session df = funnel_by_session df'"
    by (simp add: funnel_by_session_cards sessions_having_cong [OF eq])
next
  assume "e \<in> set df"
  then have eq: "set (session_type_cols (df @ [e])) = set (session_type_cols df)"
    by (auto simp: session_type_cols_def)
  from \<open>e \<in> set df\<close> have "df \<noteq> []" by auto
  then show "funnel_by_session (df @ [e]) = funnel_by_session df"
    by (simp add: funnel_by_session_cards sessions_having_cong [OF eq])
qed


theorem funnel_by_session_dedup_witness:
  "set (session_type_cols [ev ''view'' ''s1'', ev ''cart'' ''s1''])
     = set (session_type_cols [ev ''cart'' ''s1'', ev ''view'' ''s1'', ev ''cart'' ''s1''])
   \<and> funnel_by_session [ev ''view'' ''s1'', ev ''cart'' ''s1'']
     = funnel_by_session [ev ''cart'' ''s1'', ev ''view'' ''s1'', ev ''cart'' ''s1'']
   \<and> ev ''view'' ''s1'' \<in> set [ev ''view'' ''s1'', ev ''cart'' ''s1'']
   \<and> funnel_by_session ([ev ''view'' ''s1'', ev ''cart'' ''s1''] @ [ev ''view'' ''s1''])
     = funnel_by_session [ev ''view'' ''s1'', ev ''cart'' ''s1'']"
  using funnel_by_session_dedup
    [of "[ev ''view'' ''s1'', ev ''cart'' ''s1'']"
        "[ev ''cart'' ''s1'', ev ''view'' ''s1'', ev ''cart'' ''s1'']" "ev ''view'' ''s1''"]
  by (auto simp: session_type_cols_def ev_def)

text \<open>
  C8, counterexample. A file that is there and parses, with a header without the
  column \<open>user_id\<close>: \<open>load_data\<close> raises \<open>KeyError\<close>.
\<close>

theorem load_data_without_user_id:
  "load_data (\<lambda>n. 0)
     (Some (Parsed \<lparr> csv_columns = [''event_time'', ''event_type'', ''price'', ''user_session''],
                     event_time_dtype = Datetime64,
                     csv_rows = [csv_row0 \<lparr> c_product_id := None, c_category_code := None,
                                   c_brand := None, c_user_id := None \<rparr>] \<rparr>))
   = Inl (KeyError ''user_id'')"
  by (simp add: load_data_def downsample_def convert_columns_def TARGET_ROWS_def)

text \<open>
  C8, as the code has it. \<open>load_data\<close> raises the file-not-found error exactly when
  no file is there, and an exception raised inside \<open>read_csv\<close> propagates. When the
  file parses, \<open>load_data\<close> returns a table if the parsed frame has the columns
  \<open>user_id\<close>, \<open>user_session\<close>, \<open>category_code\<close>, \<open>brand\<close> and a datetime
  \<open>event_time\<close>; if not, it raises \<open>KeyError\<close> or \<open>AttributeError\<close>.
\<close>

theorem load_data_errors:
  "(load_data rng csv = Inl FileNotFoundError \<longleftrightarrow> csv = None)
   \<and> load_data rng (Some (Unparsable c)) = Inl (Read_error c)
   \<and> (has_expected_columns df \<longrightarrow> (\<exists>t. load_data rng (Some (Parsed df)) = Inr t))
   \<and> (\<not> has_expected_columns df \<longrightarrow>
        (\<exists>k. load_data rng (Some (Parsed df)) = Inl (KeyError k))
        \<or> load_data rng (Some (Parsed df)) = Inl AttributeError)"
proof (intro conjI impI)
  show "load_data rng csv = Inl FileNotFoundError \<longleftrightarrow> csv = None"
  proof
    assume a: "load_data rng csv = Inl FileNotFoundError"
    show "csv = None"
    proof (cases csv)
      case None
      then show ?thesis .
    next
      case (Some f)
      show ?thesis
      proof (cases f)
        case (Unparsable c)
        with Some a show ?thesis by (simp add: load_data_def)
      next
        case (Parsed df)
        with Some a load_data_parsed_error [of rng df FileNotFoundError] show ?thesis by simp
      qed
    qed
  next
    assume "csv = None"
    then show "load_data rng csv = Inl FileNotFoundError" by (simp add: load_data_def)
  qed
  show "load_data rng (Some (Unparsable c)) = Inl (Read_error c)"
    by (simp add: load_data_def)
  show "\<exists>t. load_data rng (Some (Parsed df)) = Inr t" if "has_expected_columns df"
    using that load_data_ok by blast
  show "(\<exists>k. load_data rng (Some (Parsed df)) = Inl (KeyError k))
        \<or> load_data rng (Some (Parsed df)) = Inl AttributeError"
    if "\<not> has_expected_columns df"
  proof (cases "load_data rng (Some (Parsed df))")
    case (Inl err)
    with load_data_parsed_error [OF Inl] show ?thesis by auto
  next
    case (Inr t)
    with that load_data_ok show ?thesis by blast
  qed
qed

theorem load_data_errors_witness:
  "load_data (\<lambda>n. 0) None = Inl FileNotFoundError
   \<and> has_expected_columns
        \<lparr> csv_columns = csv_header, event_time_dtype = Datetime64, csv_rows = [csv_row0] \<rparr>
   \<and> (\<exists>t. load_data (\<lambda>n. 0)
        (Some (Parsed \<lparr> csv_columns = csv_header, event_time_dtype = Datetime64,
                        csv_rows = [csv_row0] \<rparr>)) = Inr t)
   \<and> \<not> has_expected_columns
        \<lparr> csv_columns = csv_header, event_time_dtype = Object, csv_rows = [csv_row0] \<rparr>
   \<and> load_data (\<lambda>n. 0)
        (Some (Parsed \<lparr> csv_columns = csv_header, event_time_dtype = Object,
                        csv_rows = [csv_row0] \<rparr>)) = Inl AttributeError"
  using load_data_errors [of "\<lambda>n. 0" None "''EmptyDataError''"
      "\<lparr> csv_columns = csv_header, event_time_dtype = Datetime64, csv_rows = [csv_row0] \<rparr>"]
  by (simp add: has_expected_columns_def csv_header_def load_data_def downsample_def
      convert_columns_def TARGET_ROWS_def)

text \<open>
  C10. A table that \<open>load_data\<close> returns has at most \<open>TARGET_ROWS\<close> = 50000 rows:
  exactly 50000 when the parsed file has more, and as many as the parsed file
  otherwise.
\<close>

theorem load_data_row_cap:
  assumes "load_data rng csv = Inr t"
  shows "length (rows t) \<le> TARGET_ROWS \<and> TARGET_ROWS = 50000
     \<and> (\<exists>df. csv = Some (Parsed df)
          \<and> (length (csv_rows df) > TARGET_ROWS \<longrightarrow> length (rows t) = TARGET_ROWS)
          \<and> (length (csv_rows df) \<le> TARGET_ROWS \<longrightarrow> length (rows t) = length (csv_rows df)))"
proof -
  from assms obtain df where f: "csv = Some (Parsed df)"
    by (auto simp: load_data_def split: option.splits csv_file.splits)
  with assms have "length (rows t) = min TARGET_ROWS (length (csv_rows df))"
    using load_data_length by blast
  with f show ?thesis by (auto simp: TARGET_ROWS_def)
qed

theorem load_data_row_cap_witness:
  "(\<exists>t. load_data (\<lambda>n. n)
        (Some (Parsed \<lparr> csv_columns = csv_header, event_time_dtype = Datetime64,
                        csv_rows = replicate 50001 csv_row0 \<rparr>)) = Inr t
      \<and> length (rows t) = 50000)
   \<and> (\<exists>t. load_data (\<lambda>n. n)
        (Some (Parsed \<lparr> csv_columns = csv_header, event_time_dtype = Datetime64,
                        csv_rows = [csv_row0, csv_row0] \<rparr>)) = Inr t
      \<and> length (rows t) = 2)"
proof (intro conjI)
  let ?big = "\<lparr> csv_columns = csv_header, event_time_dtype = Datetime64,
                 csv_rows = replicate 50001 csv_row0 \<rparr>"
  let ?small = "\<lparr> csv_columns = csv_header, event_time_dtype = Datetime64,
                   csv_rows = [csv_row0, csv_row0] \<rparr>"
  have "has_expected_columns ?big"
    by (simp add: has_expected_columns_def csv_header_def)
  then obtain t where t: "load_data (\<lambda>n. n) (Some (Parsed ?big)) = Inr t"
    using load_data_ok by blast
  from load_data_row_cap [OF t] have "length (rows t) = 50000"
    by (simp add: TARGET_ROWS_def)
  with t show "\<exists>t. load_data (\<lambda>n. n) (Some (Parsed ?big)) = Inr t \<and> length (rows t) = 50000"
    by blast
  have "has_expected_columns ?small"
    by (simp add: has_expected_columns_def csv_header_def)
  then obtain u where u: "load_data (\<lambda>n. n) (Some (Parsed ?small)) = Inr u"
    using load_data_ok by blast
  from load_data_row_cap [OF u] have "length (rows u) = 2"
    by (simp add: TARGET_ROWS_def)
  with u show "\<exists>t. load_data (\<lambda>n. n) (Some (Parsed ?small)) = Inr t \<and> length (rows t) = 2"
    by blast
qed

text \<open>
  C7. No analytics operation mutates the table it is given: after each of
  \<open>compute_kpis\<close>, \<open>funnel_by_session\<close>, \<open>funnel_by_category\<close>,
  \<open>funnel_by_price_bucket\<close>, \<open>funnel_by_hour\<close>, \<open>category_revenue\<close>,
  \<open>repeat_purchase_stats\<close>, \<open>time_to_purchase_distribution\<close> and
  \<open>high_view_low_buy_categories\<close>, whether it returns or raises, the object at the
  reference \<open>df\<close> is the one that was there before the call.
\<close>

theorem analytics_leave_input_unchanged:
  assumes "df < length h"
  shows "snd (compute_kpis_effects P df h) ! df = h ! df
    \<and> snd (funnel_by_session_effects P df h) ! df = h ! df
    \<and> snd (funnel_by_category_effects P df top_n h) ! df = h ! df
    \<and> snd (funnel_by_price_bucket_effects P df h) ! df = h ! df
    \<and> snd (funnel_by_hour_effects P df h) ! df = h ! df
    \<and> snd (category_revenue_effects P df top_n h) ! df = h ! df
    \<and> snd (repeat_purchase_stats_effects P df h) ! df = h ! df
    \<and> snd (time_to_purchase_distribution_effects P df h) ! df = h ! df
    \<and> snd (high_view_low_buy_categories_effects P df min_views h) ! df = h ! df"
  using assms
  by (intro conjI keeps_nth keeps_compute_kpis_effects keeps_funnel_by_session_effects
      keeps_funnel_by_category_effects keeps_funnel_by_price_bucket_effects
      keeps_funnel_by_hour_effects keeps_category_revenue_effects
      keeps_repeat_purchase_stats_effects keeps_time_to_purchase_distribution_effects
      keeps_high_view_low_buy_categories_effects)

theorem analytics_leave_input_unchanged_witness:
  "(0::nat) < length [[''price'', ''event_type'']]
   \<and> snd (funnel_by_price_bucket_effects columns_only 0 [[''price'', ''event_type'']]) ! 0
       = [''price'', ''event_type'']
   \<and> snd (funnel_by_price_bucket_effects columns_only 0 [[''price'', ''event_type'']]) ! 1
       = [''price'', ''event_type'', ''price_bucket'']"
  using analytics_leave_input_unchanged [of 0 "[[''price'', ''event_type'']]" columns_only 0 0]
  by (simp add: funnel_by_price_bucket_effects_def columns_only_def bind_def new_def cond_def
      assign_def ret_def ensure_event_columns_def fill_rates_def add_column_def)

end
